theory Spec2Isabelle
  imports Complex_Main "HOL-Library.List_Lexorder" "HOL-Library.Multiset"
begin

section \<open>Arrays\<close>

text \<open>
  The meshes of \<^verbatim>\<open>spfem/mesh.py\<close> are pairs of two-dimensional numpy arrays:
  \<^verbatim>\<open>p\<close> (the vertices, \<^verbatim>\<open>dim x Npoints\<close>) and \<^verbatim>\<open>t\<close> (the element connectivity,
  \<^verbatim>\<open>verts/elem x Nelems\<close>). A two-dimensional array is modelled as the list of its
  rows, so that \<^verbatim>\<open>a[i, :]\<close> is \<open>a ! i\<close>, \<^verbatim>\<open>np.vstack((r0, r1))\<close> of two
  one-dimensional arrays is \<open>[r0, r1]\<close> and \<^verbatim>\<open>a.shape[0]\<close> is \<open>length a\<close>.
  Coordinates are real numbers (the rounding of the machine's floating point numbers is
  not part of the model); vertex, facet and edge indices are natural numbers (numpy's
  negative indices, which count from the end, are not part of the model); the
  facet-to-element table, which holds the value \<open>-1\<close>, has integer entries.
\<close>

definition ncols :: "'a list list \<Rightarrow> nat" where
  \<comment> \<open>\<^verbatim>\<open>a.shape[1]\<close>\<close>
  "ncols M = (case M of [] \<Rightarrow> 0 | r # _ \<Rightarrow> length r)"

definition col :: "'a list list \<Rightarrow> nat \<Rightarrow> 'a list" where
  \<comment> \<open>\<^verbatim>\<open>a[:, j]\<close>\<close>
  "col M j = map (\<lambda>r. r ! j) M"

definition cols :: "'a list list \<Rightarrow> 'a list list" where
  \<comment> \<open>the rows of \<^verbatim>\<open>a.T\<close>\<close>
  "cols M = map (col M) [0..<ncols M]"

definition rows_of_cols :: "nat \<Rightarrow> 'a list list \<Rightarrow> 'a list list" where
  \<comment> \<open>the array of \<open>k\<close> rows whose columns are \<open>C\<close>\<close>
  "rows_of_cols k C = map (\<lambda>i. map (\<lambda>c. c ! i) C) [0..<k]"

definition np_sort_axis0 :: "('a::linorder) list list \<Rightarrow> 'a list list" where
  \<comment> \<open>\<^verbatim>\<open>np.sort(a, axis=0)\<close>: every column sorted ascending\<close>
  "np_sort_axis0 M = rows_of_cols (length M) (map sort (cols M))"

definition hstack :: "'a list list \<Rightarrow> 'a list list \<Rightarrow> 'a list list" where
  \<comment> \<open>\<^verbatim>\<open>np.hstack((a, b))\<close> of two arrays with the same number of rows\<close>
  "hstack A B = map2 (@) A B"

definition fancy :: "'a list \<Rightarrow> nat list \<Rightarrow> 'a list" where
  \<comment> \<open>\<^verbatim>\<open>r[ix]\<close> for an index array \<open>ix\<close>; the callers check the range first\<close>
  "fancy r ix = map ((!) r) ix"

definition fancy_cols :: "'a list list \<Rightarrow> nat list \<Rightarrow> 'a list list" where
  \<comment> \<open>\<^verbatim>\<open>a[:, ix]\<close>\<close>
  "fancy_cols M ix = map (\<lambda>r. fancy r ix) M"

definition reshape :: "nat \<Rightarrow> nat \<Rightarrow> 'a list \<Rightarrow> 'a list list" where
  \<comment> \<open>\<^verbatim>\<open>x.reshape((r, c))\<close> of a one-dimensional array of length \<open>r * c\<close>\<close>
  "reshape r c xs = map (\<lambda>i. take c (drop (i * c) xs)) [0..<r]"

fun index_of :: "'a list \<Rightarrow> 'a \<Rightarrow> nat" where
  "index_of [] y = 0"
| "index_of (x # xs) y = (if x = y then 0 else Suc (index_of xs y))"

definition np_unique :: "('a::linorder) list \<Rightarrow> 'a list \<times> nat list \<times> nat list" where
  \<comment> \<open>\<^verbatim>\<open>np.unique(x, return_index=True, return_inverse=True)\<close>: the sorted distinct
      values, the index of the first occurrence of each of them in \<open>x\<close>, and for every
      entry of \<open>x\<close> its index among the sorted distinct values. Rows of a structured
      view are compared field by field, that is lexicographically.\<close>
  "np_unique xs =
     (let u = sort (remdups xs) in (u, map (index_of xs) u, map (index_of u) xs))"

definition np_setdiff1d :: "('a::linorder) list \<Rightarrow> 'a list \<Rightarrow> 'a list" where
  \<comment> \<open>\<^verbatim>\<open>np.setdiff1d(a, b)\<close>: the sorted distinct values of \<open>a\<close> that are not in \<open>b\<close>\<close>
  "np_setdiff1d a b = filter (\<lambda>x. x \<notin> set b) (sort (remdups a))"

definition np_nonzero :: "bool list \<Rightarrow> nat list" where
  \<comment> \<open>\<^verbatim>\<open>np.nonzero(mask)[0]\<close>\<close>
  "np_nonzero bs = filter (\<lambda>i. bs ! i) [0..<length bs]"

definition assign :: "'a list \<Rightarrow> nat list \<Rightarrow> 'a list \<Rightarrow> 'a list" where
  \<comment> \<open>\<^verbatim>\<open>r[ix] = vals\<close>, the assignments made from left to right\<close>
  "assign r ix vals = fold (\<lambda>(i, v) r'. r'[i := v]) (zip ix vals) r"

definition assign_const :: "'a list \<Rightarrow> nat list \<Rightarrow> 'a \<Rightarrow> 'a list" where
  \<comment> \<open>\<^verbatim>\<open>r[ix] = v\<close>\<close>
  "assign_const r ix v = fold (\<lambda>i r'. r'[i := v]) ix r"

section \<open>Meshes\<close>

datatype error =
    IndexError
  | ValueError
  | Must_provide_p_AND_t_or_neither
  | Mesh_too_large_dimension
  | Mesh_connectivity_wrong_shape
  | Mesh_vertex_not_in_any_element
  | Mesh_duplicate_vertices

text \<open>
  The source raises \<^verbatim>\<open>Exception(msg)\<close> everywhere; the constructors of \<open>error\<close> name
  the messages. The four messages of \<^verbatim>\<open>Mesh._validate\<close> are the validation failures.
\<close>

definition is_InvalidMesh :: "error \<Rightarrow> bool" where
  "is_InvalidMesh e \<longleftrightarrow>
     e = Mesh_too_large_dimension \<or> e = Mesh_connectivity_wrong_shape \<or>
     e = Mesh_vertex_not_in_any_element \<or> e = Mesh_duplicate_vertices"

datatype refdom = Line | Tri | Quad | Tet

fun nvertices :: "refdom \<Rightarrow> nat" where
  "nvertices Line = 2"
| "nvertices Tri = 3"
| "nvertices Quad = 4"
| "nvertices Tet = 4"

record Mesh =
  mesh_p :: "real list list"
  mesh_t :: "nat list list"

record MeshF = Mesh +
  mesh_facets :: "nat list list"
  mesh_t2f :: "nat list list"
  mesh_f2t :: "int list list"

record MeshT = MeshF +
  mesh_edges :: "nat list list"
  mesh_t2e :: "nat list list"

definition validate :: "refdom \<Rightarrow> real list list \<Rightarrow> nat list list \<Rightarrow> error + unit" where
  \<comment> \<open>\<^verbatim>\<open>Mesh._validate\<close>. The first check of the source, that \<^verbatim>\<open>t[0, 0]\<close> is an
      integer, holds by the type of \<open>t\<close>; reading \<^verbatim>\<open>t[0, 0]\<close> fails on an array
      without entries.\<close>
  "validate rd p t =
     (if t = [] \<or> hd t = [] then Inl IndexError
      else if length p > 3 then Inl Mesh_too_large_dimension
      else if length t \<noteq> nvertices rd then Inl Mesh_connectivity_wrong_shape
      else if length (np_setdiff1d [0..<ncols p] (fst (np_unique (concat t)))) \<noteq> 0
        then Inl Mesh_vertex_not_in_any_element
      else if ncols p \<noteq> length (fst (np_unique (cols p))) then Inl Mesh_duplicate_vertices
      else Inr ())"

definition build_f2t :: "nat \<Rightarrow> nat list list \<Rightarrow> nat \<Rightarrow> nat \<Rightarrow> int list list" where
  \<comment> \<open>The facet-to-element part of \<^verbatim>\<open>_build_mappings\<close>, which \<^verbatim>\<open>MeshTri\<close>,
      \<^verbatim>\<open>MeshQuad\<close> and \<^verbatim>\<open>MeshTet\<close> repeat word for word: \<open>k\<close> is the number of rows
      of \<^verbatim>\<open>t2f\<close> written out there (3, 4 and 4), \<open>ne\<close> is \<^verbatim>\<open>self.t.shape[1]\<close> and
      \<open>nf\<close> is \<^verbatim>\<open>self.facets.shape[1]\<close>.\<close>
  "build_f2t k t2f ne nf =
     (let e_tmp = concat (map (\<lambda>i. t2f ! i) [0..<k]);
          t_tmp = concat (replicate k (map int [0..<ne]));
          (e_first, ix_first, _) = np_unique e_tmp;
          (e_last, ix_last0, _) = np_unique (rev e_tmp);
          ix_last = map (\<lambda>i. length e_tmp - i - 1) ix_last0;
          f2t0 = assign (replicate nf 0) e_first (fancy t_tmp ix_first);
          f2t1 = assign (replicate nf 0) e_last (fancy t_tmp ix_last);
          f2t1' = assign_const f2t1 (np_nonzero (map2 (=) f2t0 f2t1)) (- 1)
      in [f2t0, f2t1'])"

definition MeshTri_build_mappings :: "Mesh \<Rightarrow> error + MeshF" where
  \<comment> \<open>\<^verbatim>\<open>MeshTri._build_mappings\<close>; reading \<^verbatim>\<open>self.t[2, :]\<close> fails on an array with
      fewer than three rows.\<close>
  "MeshTri_build_mappings m =
     (if length (mesh_t m) < 3 then Inl IndexError
      else
        let t = np_sort_axis0 (mesh_t m);
            facets0 = hstack (hstack (np_sort_axis0 [t ! 0, t ! 1])
                                     (np_sort_axis0 [t ! 1, t ! 2]))
                             (np_sort_axis0 [t ! 0, t ! 2]);
            (u, ixa, ixb) = np_unique (cols facets0);
            facets = fancy_cols facets0 ixa;
            t2f = reshape 3 (ncols t) ixb;
            f2t = build_f2t 3 t2f (ncols t) (ncols facets)
        in Inr \<lparr>mesh_p = mesh_p m, mesh_t = t,
                 mesh_facets = facets, mesh_t2f = t2f, mesh_f2t = f2t\<rparr>)"

definition MeshTri_init ::
  "real list list option \<Rightarrow> nat list list option \<Rightarrow> bool \<Rightarrow> string option \<Rightarrow> error + MeshF" where
  \<comment> \<open>\<^verbatim>\<open>MeshTri.__init__(p, t, validate, initmesh)\<close>\<close>
  "MeshTri_init p t validate_flag initmesh =
     (case (p, t) of
        (None, None) \<Rightarrow>
          (let (p', t') =
                 (if initmesh = Some ''symmetric''
                  then ([[0, 1, 1, 0, 0.5], [0, 0, 1, 1, 0.5]],
                        cols [[0, 1, 4], [1, 2, 4], [2, 3, 4], [0, 3, 4]])
                  else ([[0, 1, 0, 1], [0, 0, 1, 1]],
                        cols [[0, 1, 2], [1, 3, 2]]))
           in (case (if validate_flag then validate Tri p' t' else Inr ()) of
                 Inl e \<Rightarrow> Inl e
               | Inr _ \<Rightarrow> MeshTri_build_mappings \<lparr>mesh_p = p', mesh_t = t'\<rparr>))
      | (Some p', Some t') \<Rightarrow>
          (case (if validate_flag then validate Tri p' t' else Inr ()) of
             Inl e \<Rightarrow> Inl e
           | Inr _ \<Rightarrow> MeshTri_build_mappings \<lparr>mesh_p = p', mesh_t = t'\<rparr>)
      | _ \<Rightarrow> Inl Must_provide_p_AND_t_or_neither)"

definition boundary_facets :: "MeshF \<Rightarrow> nat list" where
  \<comment> \<open>\<^verbatim>\<open>np.nonzero(self.f2t[1, :] == -1)[0]\<close>\<close>
  "boundary_facets m = np_nonzero (map (\<lambda>x. x = - 1) (mesh_f2t m ! 1))"

definition boundary_nodes :: "MeshF \<Rightarrow> nat list" where
  \<comment> \<open>\<^verbatim>\<open>np.unique(self.facets[:, self.boundary_facets()])\<close>\<close>
  "boundary_nodes m =
     fst (np_unique (concat (fancy_cols (mesh_facets m) (boundary_facets m))))"

section \<open>Refinement of a triangular mesh\<close>

definition midpoints :: "real list \<Rightarrow> nat list list \<Rightarrow> real list" where
  \<comment> \<open>\<^verbatim>\<open>0.5*(r[e[0, :]] + r[e[1, :]])\<close> for a row \<open>r\<close> of \<^verbatim>\<open>p\<close>\<close>
  "midpoints r e = map (\<lambda>x. 0.5 * x) (map2 (+) (fancy r (e ! 0)) (fancy r (e ! 1)))"

definition MeshTri_newt :: "nat list list \<Rightarrow> nat list list \<Rightarrow> nat list list" where
  \<comment> \<open>the new triangle definitions of \<^verbatim>\<open>MeshTri._single_refine\<close>, from \<^verbatim>\<open>t\<close> and
      the shifted \<^verbatim>\<open>t2f\<close>\<close>
  "MeshTri_newt t t2f =
     (let newt = [t ! 0, t2f ! 0, t2f ! 2];
          newt = hstack newt [t ! 1, t2f ! 0, t2f ! 1];
          newt = hstack newt [t ! 2, t2f ! 2, t2f ! 1];
          newt = hstack newt [t2f ! 0, t2f ! 1, t2f ! 2]
      in newt)"

definition MeshTri_single_refine :: "MeshF \<Rightarrow> error + MeshF" where
  \<comment> \<open>\<^verbatim>\<open>MeshTri._single_refine\<close>. An index array is read with entries out of range, or a
      row that is not there is read: \<^verbatim>\<open>IndexError\<close>; \<^verbatim>\<open>np.hstack((p, newp))\<close> with
      \<^verbatim>\<open>p\<close> of more than two rows: \<^verbatim>\<open>ValueError\<close>. The tables of the mesh are those
      \<^verbatim>\<open>_build_mappings\<close> stored, so the rows stacked have one length.\<close>
  "MeshTri_single_refine m =
     (let t = mesh_t m; p = mesh_p m; e = mesh_facets m;
          sz = ncols p;
          t2f = map (map (\<lambda>i. i + sz)) (mesh_t2f m)
      in if length p < 2 \<or> length e < 2 \<or> length t < 3 \<or> length t2f < 3
            \<or> \<not> (\<forall>i \<in> set (e ! 0) \<union> set (e ! 1). i < sz)
         then Inl IndexError
         else if length p \<noteq> 2 then Inl ValueError
         else
           let newp = [midpoints (p ! 0) e, midpoints (p ! 1) e];
               newp = hstack p newp;
               newt = MeshTri_newt t t2f
           in MeshTri_build_mappings \<lparr>mesh_p = newp, mesh_t = newt\<rparr>)"

fun MeshTri_refine :: "nat \<Rightarrow> MeshF \<Rightarrow> error + MeshF" where
  \<comment> \<open>\<^verbatim>\<open>MeshTri.refine(N)\<close>\<close>
  "MeshTri_refine 0 m = Inr m"
| "MeshTri_refine (Suc n) m =
     (case MeshTri_single_refine m of Inl e \<Rightarrow> Inl e | Inr m' \<Rightarrow> MeshTri_refine n m')"

section \<open>Tetrahedral meshes\<close>

definition MeshTet_build_mappings :: "Mesh \<Rightarrow> error + MeshT" where
  \<comment> \<open>\<^verbatim>\<open>MeshTet._build_mappings\<close>; the two loops run over the index tables \<^verbatim>\<open>e\<close> and
      \<^verbatim>\<open>f\<close> as the source reads them (\<^verbatim>\<open>f[2*i], f[2*i+1], f[2*i+2]\<close>).\<close>
  "MeshTet_build_mappings m =
     (if length (mesh_t m) < 4 then Inl IndexError
      else
        let t = mesh_t m;
            e = [1, 2, 0, 2, 0, 3, 1, 3, 2, 3];
            edges0 = fold (\<lambda>i E. hstack E (np_sort_axis0 [t ! (e ! (2 * i)), t ! (e ! (2 * i + 1))]))
                          [0..<5] (np_sort_axis0 [t ! 0, t ! 1]);
            (ue, ixa, ixb) = np_unique (cols edges0);
            edges = fancy_cols edges0 ixa;
            t2e = reshape 6 (ncols t) ixb;
            f = [0, 1, 3, 0, 2, 3, 1, 2, 3];
            facets0 = fold (\<lambda>i F. hstack F (np_sort_axis0 [t ! (f ! (2 * i)), t ! (f ! (2 * i + 1)),
                                                             t ! (f ! (2 * i + 2))]))
                           [0..<3] (np_sort_axis0 [t ! 0, t ! 1, t ! 2]);
            (uf, ixa', ixb') = np_unique (cols facets0);
            facets = fancy_cols facets0 ixa';
            t2f = reshape 4 (ncols t) ixb';
            f2t = build_f2t 4 t2f (ncols t) (ncols facets)
        in Inr \<lparr>mesh_p = mesh_p m, mesh_t = t,
                 mesh_facets = facets, mesh_t2f = t2f, mesh_f2t = f2t,
                 mesh_edges = edges, mesh_t2e = t2e\<rparr>)"

definition MeshTet_init ::
  "real list list option \<Rightarrow> nat list list option \<Rightarrow> bool \<Rightarrow> error + MeshT" where
  \<comment> \<open>\<^verbatim>\<open>MeshTet.__init__(p, t, validate)\<close>\<close>
  "MeshTet_init p t validate_flag =
     (case (p, t) of
        (None, None) \<Rightarrow>
          (let p' = cols [[0, 0, 0], [0, 0, 1], [0, 1, 0], [1, 0, 0],
                          [0, 1, 1], [1, 0, 1], [1, 1, 0], [1, 1, 1]];
               t' = cols [[0, 1, 2, 3], [3, 5, 1, 7], [2, 3, 6, 7], [2, 3, 1, 7], [1, 2, 4, 7]]
           in (case (if validate_flag then validate Tet p' t' else Inr ()) of
                 Inl e \<Rightarrow> Inl e
               | Inr _ \<Rightarrow> MeshTet_build_mappings \<lparr>mesh_p = p', mesh_t = t'\<rparr>))
      | (Some p', Some t') \<Rightarrow>
          (case (if validate_flag then validate Tet p' t' else Inr ()) of
             Inl e \<Rightarrow> Inl e
           | Inr _ \<Rightarrow> MeshTet_build_mappings \<lparr>mesh_p = p', mesh_t = t'\<rparr>)
      | _ \<Rightarrow> Inl Must_provide_p_AND_t_or_neither)"

definition diag2 :: "real list list \<Rightarrow> nat list \<Rightarrow> nat list \<Rightarrow> real list" where
  \<comment> \<open>\<^verbatim>\<open>(newp[0, a] - newp[0, b])**2 + (newp[1, a] - newp[1, b])**2\<close>\<close>
  "diag2 newp a b =
     map2 (+) (map (\<lambda>x. x ^ 2) (map2 (-) (fancy (newp ! 0) a) (fancy (newp ! 0) b)))
              (map (\<lambda>x. x ^ 2) (map2 (-) (fancy (newp ! 1) a) (fancy (newp ! 1) b)))"

definition msel :: "'a list \<Rightarrow> bool list \<Rightarrow> 'a list" where
  \<comment> \<open>\<^verbatim>\<open>r[c]\<close> for a boolean array \<open>c\<close> as long as \<open>r\<close>\<close>
  "msel r c = map fst (filter snd (zip r c))"

definition MeshTet_corners :: "nat list list \<Rightarrow> nat list list \<Rightarrow> nat list list" where
  \<comment> \<open>the first four subtetrahedra of every element\<close>
  "MeshTet_corners t t2e =
     (let newt = [t ! 0, t2e ! 0, t2e ! 2, t2e ! 3];
          newt = hstack newt [t ! 1, t2e ! 0, t2e ! 1, t2e ! 4];
          newt = hstack newt [t ! 2, t2e ! 1, t2e ! 2, t2e ! 5];
          newt = hstack newt [t ! 3, t2e ! 3, t2e ! 4, t2e ! 5]
      in newt)"

definition MeshTet_masks :: "real list list \<Rightarrow> nat list list \<Rightarrow> bool list \<times> bool list \<times> bool list" where
  \<comment> \<open>the middle pyramid's diagonal lengths and the three cases; on a boolean array the
      unary minus of the source is numpy's logical negation\<close>
  "MeshTet_masks newp t2e =
     (let d1 = diag2 newp (t2e ! 2) (t2e ! 4);
          d2 = diag2 newp (t2e ! 1) (t2e ! 3);
          d3 = diag2 newp (t2e ! 0) (t2e ! 5);
          I1 = map2 (<) d1 d2;
          I2 = map2 (<) d1 d3;
          I3 = map2 (<) d2 d3;
          c1 = map2 (\<and>) I1 I2;
          c2 = map2 (\<and>) (map Not I1) I3;
          c3 = map2 (\<and>) (map Not I2) (map Not I3)
      in (c1, c2, c3))"

definition MeshTet_middle ::
  "nat list list \<Rightarrow> bool list \<times> bool list \<times> bool list \<Rightarrow> nat list list \<Rightarrow> nat list list" where
  \<comment> \<open>splitting the pyramid in the middle: the twelve blocks appended to \<open>newt\<close>\<close>
  "MeshTet_middle t2e cs newt =
     (let (c1, c2, c3) = cs;
          newt = hstack newt [msel (t2e ! 2) c1, msel (t2e ! 4) c1, msel (t2e ! 0) c1, msel (t2e ! 1) c1];
          newt = hstack newt [msel (t2e ! 2) c1, msel (t2e ! 4) c1, msel (t2e ! 0) c1, msel (t2e ! 3) c1];
          newt = hstack newt [msel (t2e ! 2) c1, msel (t2e ! 4) c1, msel (t2e ! 1) c1, msel (t2e ! 5) c1];
          newt = hstack newt [msel (t2e ! 2) c1, msel (t2e ! 4) c1, msel (t2e ! 3) c1, msel (t2e ! 5) c1];
          newt = hstack newt [msel (t2e ! 1) c2, msel (t2e ! 3) c2, msel (t2e ! 0) c2, msel (t2e ! 4) c2];
          newt = hstack newt [msel (t2e ! 1) c2, msel (t2e ! 3) c2, msel (t2e ! 4) c2, msel (t2e ! 5) c2];
          newt = hstack newt [msel (t2e ! 1) c2, msel (t2e ! 3) c2, msel (t2e ! 5) c2, msel (t2e ! 2) c2];
          newt = hstack newt [msel (t2e ! 1) c2, msel (t2e ! 3) c2, msel (t2e ! 2) c2, msel (t2e ! 0) c2];
          newt = hstack newt [msel (t2e ! 0) c3, msel (t2e ! 5) c3, msel (t2e ! 1) c3, msel (t2e ! 4) c3];
          newt = hstack newt [msel (t2e ! 0) c3, msel (t2e ! 5) c3, msel (t2e ! 4) c3, msel (t2e ! 3) c3];
          newt = hstack newt [msel (t2e ! 0) c3, msel (t2e ! 5) c3, msel (t2e ! 3) c3, msel (t2e ! 2) c3];
          newt = hstack newt [msel (t2e ! 0) c3, msel (t2e ! 5) c3, msel (t2e ! 2) c3, msel (t2e ! 1) c3]
      in newt)"

definition MeshTet_newp :: "real list list \<Rightarrow> nat list list \<Rightarrow> real list list" where
  "MeshTet_newp p e =
     (let newp = [midpoints (p ! 0) e, midpoints (p ! 1) e, midpoints (p ! 2) e]
      in hstack p newp)"

definition MeshTet_single_refine :: "MeshT \<Rightarrow> error + MeshT" where
  \<comment> \<open>\<^verbatim>\<open>MeshTet._single_refine\<close>, with the failures of \<^verbatim>\<open>MeshTri._single_refine\<close>: an
      index out of range or a missing row is an \<^verbatim>\<open>IndexError\<close>, \<^verbatim>\<open>np.hstack((p, newp))\<close>
      with \<^verbatim>\<open>p\<close> of more than three rows a \<^verbatim>\<open>ValueError\<close>.\<close>
  "MeshTet_single_refine m =
     (let t = mesh_t m; p = mesh_p m; e = mesh_edges m;
          sz = ncols p;
          t2e = map (map (\<lambda>i. i + sz)) (mesh_t2e m)
      in if length p < 3 \<or> length e < 2 \<or> length t < 4 \<or> length t2e < 6
            \<or> \<not> (\<forall>i \<in> set (e ! 0) \<union> set (e ! 1). i < sz)
         then Inl IndexError
         else if length p \<noteq> 3 then Inl ValueError
         else
           let newp = MeshTet_newp p e;
               newt = MeshTet_corners t t2e
           in if \<not> (\<forall>i \<in> set (concat (take 6 t2e)). i < ncols newp) then Inl IndexError
              else
                let newt = MeshTet_middle t2e (MeshTet_masks newp t2e) newt
                in MeshTet_build_mappings \<lparr>mesh_p = newp, mesh_t = newt\<rparr>)"

section \<open>Notions used in the statements\<close>

definition is_array :: "nat \<Rightarrow> nat \<Rightarrow> 'a list list \<Rightarrow> bool" where
  \<comment> \<open>a numpy array of shape \<open>(k, n)\<close>: \<open>k\<close> rows of length \<open>n\<close>\<close>
  "is_array k n M \<longleftrightarrow> length M = k \<and> (\<forall>r \<in> set M. length r = n)"

definition indices_below :: "nat \<Rightarrow> nat list list \<Rightarrow> bool" where
  \<comment> \<open>every entry of the connectivity is an index into an array of \<open>V\<close> vertices\<close>
  "indices_below V t \<longleftrightarrow> (\<forall>r \<in> set t. \<forall>i \<in> set r. i < V)"

definition unit_tet :: "error + MeshT" where
  \<comment> \<open>the tetrahedron with corners (0,0,0), (1,0,0), (0,1,0), (0,0,1)\<close>
  "unit_tet =
     MeshTet_init (Some (cols [[0, 0, 0], [1, 0, 0], [0, 1, 0], [0, 0, 1]]))
                  (Some (cols [[0, 1, 2, 3]])) True"

definition is_first_ref :: "nat \<Rightarrow> nat \<Rightarrow> nat list list \<Rightarrow> nat \<Rightarrow> nat \<Rightarrow> nat \<Rightarrow> bool" where
  \<comment> \<open>local slot \<open>s\<close> of element \<open>e\<close> is the first reference to facet \<open>f\<close> in the table
      \<open>t2f\<close> (\<open>k\<close> slots, \<open>ne\<close> elements), the references read slot by slot and, in one
      slot, element by element\<close>
  "is_first_ref k ne t2f f s e \<longleftrightarrow>
     s < k \<and> e < ne \<and> t2f ! s ! e = f \<and>
     (\<forall>s' \<in> {0..<k}. \<forall>e' \<in> {0..<ne}. t2f ! s' ! e' = f \<longrightarrow> s < s' \<or> (s = s' \<and> e \<le> e'))"

definition is_last_ref :: "nat \<Rightarrow> nat \<Rightarrow> nat list list \<Rightarrow> nat \<Rightarrow> nat \<Rightarrow> nat \<Rightarrow> bool" where
  \<comment> \<open>the last reference to facet \<open>f\<close>, in the same order\<close>
  "is_last_ref k ne t2f f s e \<longleftrightarrow>
     s < k \<and> e < ne \<and> t2f ! s ! e = f \<and>
     (\<forall>s' \<in> {0..<k}. \<forall>e' \<in> {0..<ne}. t2f ! s' ! e' = f \<longrightarrow> s' < s \<or> (s' = s \<and> e' \<le> e))"

definition ref_elements :: "nat \<Rightarrow> nat \<Rightarrow> nat list list \<Rightarrow> nat \<Rightarrow> nat list" where
  \<comment> \<open>the elements that reference facet \<open>f\<close>, in ascending order\<close>
  "ref_elements k ne t2f f = filter (\<lambda>e. \<exists>s \<in> {0..<k}. t2f ! s ! e = f) [0..<ne]"

definition ref_count :: "nat list list \<Rightarrow> nat \<Rightarrow> nat" where
  \<comment> \<open>the number of references to facet \<open>f\<close>: of entries of \<open>t2f\<close> equal to \<open>f\<close>\<close>
  "ref_count t2f f = count_list (concat t2f) f"

definition last_index_of :: "'a list \<Rightarrow> 'a \<Rightarrow> nat" where
  \<comment> \<open>the index \<^verbatim>\<open>ix_last\<close> of \<^verbatim>\<open>_build_mappings\<close>: the last occurrence of \<open>x\<close> in \<open>xs\<close>\<close>
  "last_index_of xs x = length xs - index_of (rev xs) x - 1"

definition tri_slots :: "(nat \<times> nat) list" where
  \<comment> \<open>the facets of a triangle, \<^verbatim>\<open>in the order (0,1) (1,2) (0,2)\<close>\<close>
  "tri_slots = [(0, 1), (1, 2), (0, 2)]"

inductive tri_reachable :: "MeshF \<Rightarrow> bool" where
  \<comment> \<open>the triangular meshes a caller can hold: constructed, then refined any number of
      times\<close>
  constructed:
    "is_array 3 ne t \<Longrightarrow> MeshTri_init (Some p) (Some t) v im = Inr m \<Longrightarrow> tri_reachable m"
| default: "MeshTri_init None None v im = Inr m \<Longrightarrow> tri_reachable m"
| refined: "tri_reachable m \<Longrightarrow> MeshTri_single_refine m = Inr m' \<Longrightarrow> tri_reachable m'"

definition tet_edge_slots :: "(nat \<times> nat) list" where
  \<comment> \<open>the edges of a tetrahedron, \<^verbatim>\<open>in the order (0,1) (1,2) (0,2) (0,3) (1,3) (2,3)\<close>\<close>
  "tet_edge_slots = [(0, 1), (1, 2), (0, 2), (0, 3), (1, 3), (2, 3)]"

definition tet_facet_slots :: "nat list list" where
  \<comment> \<open>the faces of a tetrahedron, as the loop of \<^verbatim>\<open>MeshTet._build_mappings\<close> reads the
      rows of \<^verbatim>\<open>t\<close>: (0,1,2), then \<^verbatim>\<open>f[0:3]\<close>, \<^verbatim>\<open>f[2:5]\<close> and \<^verbatim>\<open>f[4:7]\<close>\<close>
  "tet_facet_slots = [[0, 1, 2], [0, 1, 3], [3, 0, 2], [2, 3, 1]]"

definition f2t_first_last :: "nat \<Rightarrow> nat \<Rightarrow> nat list list \<Rightarrow> int list list \<Rightarrow> nat \<Rightarrow> bool" where
  \<comment> \<open>slot 0 of facet \<open>f\<close> holds the element of its first reference and slot 1 the
      element of its last reference, or \<open>-1\<close> when the two elements are the same\<close>
  "f2t_first_last k ne t2f f2t f \<longleftrightarrow>
     (\<exists>s \<in> {0..<k}. \<exists>e \<in> {0..<ne}. \<exists>s' \<in> {0..<k}. \<exists>e' \<in> {0..<ne}.
        is_first_ref k ne t2f f s e \<and> is_last_ref k ne t2f f s' e' \<and>
        f2t ! 0 ! f = int e \<and> f2t ! 1 ! f = (if e = e' then - 1 else int e'))"

definition fan_p :: "real list list" where
  \<comment> \<open>the points (0,0), (1,0), (0,1), (1,1), (2,2)\<close>
  "fan_p = [[0, 1, 0, 1, 2], [0, 0, 1, 1, 2]]"

definition fan_t :: "nat list list" where
  \<comment> \<open>three triangles (0,1,2), (0,1,3), (0,1,4) that share the edge {0,1}\<close>
  "fan_t = cols [[0, 1, 2], [0, 1, 3], [0, 1, 4]]"

definition flat_p :: "real list list" where
  \<comment> \<open>the points (0,0), (1,0), (0,1)\<close>
  "flat_p = [[0, 1, 0], [0, 0, 1]]"

definition flat_t :: "nat list list" where
  \<comment> \<open>the elements (0,1,1) and (0,1,2): the first one names vertex 1 twice\<close>
  "flat_t = cols [[0, 1, 1], [0, 1, 2]]"

definition far_t :: "nat list list" where
  \<comment> \<open>the elements (0,1,2) and (0,1,5) over three vertices: 5 is no index of a vertex\<close>
  "far_t = cols [[0, 1, 2], [0, 1, 5]]"

definition unit_tet_t :: "nat list list" where
  "unit_tet_t = cols [[0, 1, 2, 3]]"

definition tri_refined_element :: "nat \<Rightarrow> nat \<Rightarrow> MeshF \<Rightarrow> nat list list \<Rightarrow> MeshF \<Rightarrow> nat \<Rightarrow> bool" where
  \<comment> \<open>Element \<open>i\<close> of the mesh \<open>m\<close> (\<open>V\<close> vertices, \<open>Ne\<close> elements) and its four children:
      \<open>newt\<close> is the array \<^verbatim>\<open>newt\<close> of \<^verbatim>\<open>MeshTri._single_refine\<close> and \<open>m'\<close> the refined
      mesh. The corners are \<open>v0, v1, v2\<close>, the midpoint of the facet with index \<open>f\<close> has
      the index \<open>V + f\<close>, and \<open>m01, m12, m02\<close> are the midpoints of the edges
      \<open>(v0,v1), (v1,v2), (v0,v2)\<close>.\<close>
  "tri_refined_element V Ne m newt m' i \<longleftrightarrow>
     (let v0 = mesh_t m ! 0 ! i; v1 = mesh_t m ! 1 ! i; v2 = mesh_t m ! 2 ! i;
          m01 = V + mesh_t2f m ! 0 ! i; m12 = V + mesh_t2f m ! 1 ! i; m02 = V + mesh_t2f m ! 2 ! i
      in v0 \<le> v1 \<and> v1 \<le> v2 \<and>
         col (mesh_facets m) (mesh_t2f m ! 0 ! i) = [v0, v1] \<and>
         col (mesh_facets m) (mesh_t2f m ! 1 ! i) = [v1, v2] \<and>
         col (mesh_facets m) (mesh_t2f m ! 2 ! i) = [v0, v2] \<and>
         col newt i = [v0, m01, m02] \<and>
         col newt (Ne + i) = [v1, m01, m12] \<and>
         col newt (2 * Ne + i) = [v2, m02, m12] \<and>
         col newt (3 * Ne + i) = [m01, m12, m02] \<and>
         col (mesh_t m') i = sort [v0, m01, m02] \<and>
         col (mesh_t m') (Ne + i) = sort [v1, m01, m12] \<and>
         col (mesh_t m') (2 * Ne + i) = sort [v2, m02, m12] \<and>
         col (mesh_t m') (3 * Ne + i) = sort [m01, m12, m02])"

datatype diagonal = Diag_II_IV | Diag_I_VI | Diag_III_V

text \<open>
  The three diagonals of the middle part of a tetrahedron, named by the midpoints they
  connect: I, ..., VI are the midpoints of the edges (0,1), (1,2), (0,2), (0,3), (1,3), (2,3),
  as in the documentation of \<^verbatim>\<open>MeshTet._single_refine\<close>.
\<close>

definition planar_dist2 :: "real list list \<Rightarrow> nat \<Rightarrow> nat \<Rightarrow> real" where
  \<comment> \<open>the square of the distance of the vertices \<open>a\<close> and \<open>b\<close> of \<open>newp\<close>, measured with the
      first two coordinates only\<close>
  "planar_dist2 newp a b = (newp ! 0 ! a - newp ! 0 ! b) ^ 2 + (newp ! 1 ! a - newp ! 1 ! b) ^ 2"

definition tet_mids :: "nat \<Rightarrow> nat list list \<Rightarrow> nat \<Rightarrow> nat list" where
  \<comment> \<open>the indices of the midpoints I, ..., VI of element \<open>i\<close> among the refined vertices\<close>
  "tet_mids V t2e i = map (\<lambda>s. t2e ! s ! i + V) [0..<6]"

definition diag_ends :: "diagonal \<Rightarrow> nat list \<Rightarrow> nat \<times> nat" where
  "diag_ends d mids =
     (case d of Diag_II_IV \<Rightarrow> (mids ! 1, mids ! 3)
              | Diag_I_VI \<Rightarrow> (mids ! 0, mids ! 5)
              | Diag_III_V \<Rightarrow> (mids ! 2, mids ! 4))"

definition diag_length2 :: "real list list \<Rightarrow> nat list \<Rightarrow> diagonal \<Rightarrow> real" where
  "diag_length2 newp mids d = planar_dist2 newp (fst (diag_ends d mids)) (snd (diag_ends d mids))"

definition tet_choice :: "real \<Rightarrow> real \<Rightarrow> real \<Rightarrow> diagonal" where
  \<comment> \<open>the diagonal the three cases \<^verbatim>\<open>c1, c2, c3\<close> of \<^verbatim>\<open>MeshTet._single_refine\<close> select for
      one element, from the squared lengths of \<open>{II,IV}\<close>, \<open>{I,VI}\<close> and \<open>{III,V}\<close>\<close>
  "tet_choice d_II_IV d_I_VI d_III_V =
     (if d_I_VI \<le> d_III_V \<and> d_I_VI \<le> d_II_IV then Diag_I_VI
      else if d_II_IV \<le> d_III_V then Diag_II_IV
      else Diag_III_V)"

definition tet_choice_claimed :: "real \<Rightarrow> real \<Rightarrow> real \<Rightarrow> diagonal" where
  \<comment> \<open>the shortest diagonal, the first of \<open>{II,IV}\<close>, \<open>{I,VI}\<close>, \<open>{III,V}\<close> among equal ones\<close>
  "tet_choice_claimed d_II_IV d_I_VI d_III_V =
     (if d_II_IV \<le> d_I_VI \<and> d_II_IV \<le> d_III_V then Diag_II_IV
      else if d_I_VI \<le> d_III_V then Diag_I_VI
      else Diag_III_V)"

definition tet_central :: "diagonal \<Rightarrow> nat list \<Rightarrow> nat list list" where
  \<comment> \<open>the four subtetrahedra of the middle part of one element, as the blocks of
      \<^verbatim>\<open>CASE 1\<close>, \<^verbatim>\<open>CASE 2\<close> and \<^verbatim>\<open>CASE 3\<close> list them\<close>
  "tet_central d mids =
     (case d of
        Diag_III_V \<Rightarrow> [[mids ! 2, mids ! 4, mids ! 0, mids ! 1], [mids ! 2, mids ! 4, mids ! 0, mids ! 3],
                       [mids ! 2, mids ! 4, mids ! 1, mids ! 5], [mids ! 2, mids ! 4, mids ! 3, mids ! 5]]
      | Diag_II_IV \<Rightarrow> [[mids ! 1, mids ! 3, mids ! 0, mids ! 4], [mids ! 1, mids ! 3, mids ! 4, mids ! 5],
                       [mids ! 1, mids ! 3, mids ! 5, mids ! 2], [mids ! 1, mids ! 3, mids ! 2, mids ! 0]]
      | Diag_I_VI \<Rightarrow> [[mids ! 0, mids ! 5, mids ! 1, mids ! 4], [mids ! 0, mids ! 5, mids ! 4, mids ! 3],
                      [mids ! 0, mids ! 5, mids ! 3, mids ! 2], [mids ! 0, mids ! 5, mids ! 2, mids ! 1]])"

definition tet_element_choice :: "real list list \<Rightarrow> nat list \<Rightarrow> diagonal" where
  \<comment> \<open>the diagonal selected for the element with the midpoints \<open>mids\<close>\<close>
  "tet_element_choice newp mids =
     tet_choice (diag_length2 newp mids Diag_II_IV) (diag_length2 newp mids Diag_I_VI)
                (diag_length2 newp mids Diag_III_V)"

definition tet_element_choice_claimed :: "real list list \<Rightarrow> nat list \<Rightarrow> diagonal" where
  "tet_element_choice_claimed newp mids =
     tet_choice_claimed (diag_length2 newp mids Diag_II_IV) (diag_length2 newp mids Diag_I_VI)
                        (diag_length2 newp mids Diag_III_V)"

definition tet_corner_children :: "nat list \<Rightarrow> nat list \<Rightarrow> nat list list" where
  \<comment> \<open>the first four subtetrahedra (0,I,III,IV), (1,I,II,V), (2,II,III,VI), (3,IV,V,VI) of
      an element with the corners \<open>vs\<close>\<close>
  "tet_corner_children vs mids =
     [[vs ! 0, mids ! 0, mids ! 2, mids ! 3], [vs ! 1, mids ! 0, mids ! 1, mids ! 4],
      [vs ! 2, mids ! 1, mids ! 2, mids ! 5], [vs ! 3, mids ! 3, mids ! 4, mids ! 5]]"

definition middle_cols :: "nat \<Rightarrow> nat list list \<Rightarrow> bool list \<Rightarrow> bool list \<Rightarrow> bool list \<Rightarrow> nat list list" where
  \<comment> \<open>the columns of the twelve blocks of \<open>MeshTet_middle\<close>, in their order: column \<open>i\<close> of
      the rows named in a block, for every element \<open>i\<close> of the case of the block\<close>
  "middle_cols ne s c1 c2 c3 =
     map (\<lambda>i. [s ! 2 ! i, s ! 4 ! i, s ! 0 ! i, s ! 1 ! i]) (filter ((!) c1) [0..<ne]) @
     map (\<lambda>i. [s ! 2 ! i, s ! 4 ! i, s ! 0 ! i, s ! 3 ! i]) (filter ((!) c1) [0..<ne]) @
     map (\<lambda>i. [s ! 2 ! i, s ! 4 ! i, s ! 1 ! i, s ! 5 ! i]) (filter ((!) c1) [0..<ne]) @
     map (\<lambda>i. [s ! 2 ! i, s ! 4 ! i, s ! 3 ! i, s ! 5 ! i]) (filter ((!) c1) [0..<ne]) @
     map (\<lambda>i. [s ! 1 ! i, s ! 3 ! i, s ! 0 ! i, s ! 4 ! i]) (filter ((!) c2) [0..<ne]) @
     map (\<lambda>i. [s ! 1 ! i, s ! 3 ! i, s ! 4 ! i, s ! 5 ! i]) (filter ((!) c2) [0..<ne]) @
     map (\<lambda>i. [s ! 1 ! i, s ! 3 ! i, s ! 5 ! i, s ! 2 ! i]) (filter ((!) c2) [0..<ne]) @
     map (\<lambda>i. [s ! 1 ! i, s ! 3 ! i, s ! 2 ! i, s ! 0 ! i]) (filter ((!) c2) [0..<ne]) @
     map (\<lambda>i. [s ! 0 ! i, s ! 5 ! i, s ! 1 ! i, s ! 4 ! i]) (filter ((!) c3) [0..<ne]) @
     map (\<lambda>i. [s ! 0 ! i, s ! 5 ! i, s ! 4 ! i, s ! 3 ! i]) (filter ((!) c3) [0..<ne]) @
     map (\<lambda>i. [s ! 0 ! i, s ! 5 ! i, s ! 3 ! i, s ! 2 ! i]) (filter ((!) c3) [0..<ne]) @
     map (\<lambda>i. [s ! 0 ! i, s ! 5 ! i, s ! 2 ! i, s ! 1 ! i]) (filter ((!) c3) [0..<ne])"

section \<open>Facts about the arrays\<close>

lemma index_of_less: "x \<in> set xs \<Longrightarrow> index_of xs x < length xs"
  by (induction xs) auto

lemma nth_index_of: "x \<in> set xs \<Longrightarrow> xs ! index_of xs x = x"
  by (induction xs) auto

lemma index_of_le: "i < length xs \<Longrightarrow> xs ! i = x \<Longrightarrow> index_of xs x \<le> i"
proof (induction xs arbitrary: i)
  case Nil
  then show ?case by simp
next
  case (Cons a xs)
  then show ?case by (cases i) auto
qed

lemma index_of_nth_distinct: "distinct xs \<Longrightarrow> i < length xs \<Longrightarrow> index_of xs (xs ! i) = i"
proof (induction xs arbitrary: i)
  case Nil
  then show ?case by simp
next
  case (Cons a xs)
  then show ?case by (cases i) auto
qed

lemma is_array_nth: "is_array k n M \<Longrightarrow> i < k \<Longrightarrow> length (M ! i) = n"
  by (simp add: is_array_def)

lemma is_array_length: "is_array k n M \<Longrightarrow> length M = k"
  by (simp add: is_array_def)

lemma ncols_array: "is_array k n M \<Longrightarrow> 0 < k \<Longrightarrow> ncols M = n"
  by (cases M) (auto simp: is_array_def ncols_def)

lemma is_arrayI: "length M = k \<Longrightarrow> (\<And>i. i < k \<Longrightarrow> length (M ! i) = n) \<Longrightarrow> is_array k n M"
  by (auto simp: is_array_def in_set_conv_nth)

lemma length_cols: "is_array k n M \<Longrightarrow> 0 < k \<Longrightarrow> length (cols M) = n"
  by (simp add: cols_def ncols_array)

lemma nth_cols: "is_array k n M \<Longrightarrow> 0 < k \<Longrightarrow> j < n \<Longrightarrow> cols M ! j = col M j"
  by (simp add: cols_def ncols_array)

lemma length_col: "length (col M j) = length M"
  by (simp add: col_def)

lemma nth_col: "i < length M \<Longrightarrow> col M j ! i = M ! i ! j"
  by (simp add: col_def)

lemma is_array_hstack:
  "is_array k n A \<Longrightarrow> is_array k n' B \<Longrightarrow> is_array k (n + n') (hstack A B)"
  by (auto simp: is_array_def hstack_def set_zip)

lemma col_hstack:
  assumes "is_array k n A" "is_array k n' B"
  shows "col (hstack A B) j = (if j < n then col A j else col B (j - n))"
proof (rule nth_equalityI)
  show "length (col (hstack A B) j) = length (if j < n then col A j else col B (j - n))"
    using assms by (simp add: col_def hstack_def is_array_def)
next
  fix i assume "i < length (col (hstack A B) j)"
  then have i: "i < k" using assms by (simp add: col_def hstack_def is_array_def)
  have "length (A ! i) = n" using assms i by (simp add: is_array_nth)
  then show "col (hstack A B) j ! i = (if j < n then col A j else col B (j - n)) ! i"
    using assms i by (simp add: col_def hstack_def is_array_def nth_append)
qed

lemma cols_hstack:
  assumes "is_array k n A" "is_array k n' B" "0 < k"
  shows "cols (hstack A B) = cols A @ cols B"
proof (rule nth_equalityI)
  have h: "is_array k (n + n') (hstack A B)" using assms by (simp add: is_array_hstack)
  show "length (cols (hstack A B)) = length (cols A @ cols B)"
    using assms h by (simp add: length_cols)
  fix j assume "j < length (cols (hstack A B))"
  then have j: "j < n + n'" using h assms by (simp add: length_cols)
  show "cols (hstack A B) ! j = (cols A @ cols B) ! j"
    using j h assms by (simp add: nth_cols nth_append length_cols col_hstack)
qed

lemma is_array_rows_of_cols:
  "is_array k (length C) (rows_of_cols k C)"
  by (simp add: is_array_def rows_of_cols_def)

lemma col_rows_of_cols:
  "j < length C \<Longrightarrow> length (C ! j) = k \<Longrightarrow> col (rows_of_cols k C) j = C ! j"
  by (rule nth_equalityI) (simp_all add: col_def rows_of_cols_def)

lemma is_array_sort_axis0:
  "is_array k n M \<Longrightarrow> 0 < k \<Longrightarrow> is_array k n (np_sort_axis0 M)"
  using is_array_rows_of_cols[of k "map sort (cols M)"]
  by (simp add: np_sort_axis0_def length_cols is_array_length)

lemma col_sort_axis0:
  assumes "is_array k n M" "0 < k" "j < n"
  shows "col (np_sort_axis0 M) j = sort (col M j)"
proof -
  have "col (rows_of_cols k (map sort (cols M))) j = map sort (cols M) ! j"
    using assms by (intro col_rows_of_cols) (simp_all add: length_cols nth_cols length_col is_array_length)
  then show ?thesis using assms by (simp add: np_sort_axis0_def is_array_length length_cols nth_cols)
qed

lemma set_sort_remdups: "set (sort (remdups xs)) = set xs"
  by simp

lemma np_unique_fst: "fst (np_unique xs) = sort (remdups xs)"
  by (simp add: np_unique_def Let_def)

lemma np_unique_range:
  assumes "set xs = {0..<n}"
  shows "fst (np_unique xs) = [0..<n]"
proof -
  have "sort (remdups xs) = sorted_list_of_set (set xs)"
    by (simp add: sorted_list_of_set_sort_remdups)
  then show ?thesis using assms by (simp add: np_unique_fst)
qed

lemma unique_tables:
  assumes A: "is_array r n F0" and r: "0 < r" and U: "np_unique (cols F0) = (u, ixa, ixb)"
  shows "length ixb = n" and "sorted u" and "distinct u" and "set u = set (cols F0)"
    and "is_array r (length u) (fancy_cols F0 ixa)"
    and "\<And>f. f < length u \<Longrightarrow> col (fancy_cols F0 ixa) f = u ! f"
    and "\<And>k. k < n \<Longrightarrow> ixb ! k < length u \<and> u ! (ixb ! k) = col F0 k"
    and "set ixb = {0..<length u}"
proof -
  let ?K = "cols F0"
  have u: "u = sort (remdups ?K)" and ixa: "ixa = map (index_of ?K) u"
    and ixb: "ixb = map (index_of u) ?K"
    using U by (auto simp: np_unique_def Let_def)
  have lK: "length ?K = n" using A r by (simp add: length_cols)
  show "length ixb = n" using lK by (simp add: ixb)
  show "sorted u" by (simp add: u)
  show du: "distinct u" by (simp add: u)
  show su: "set u = set ?K" by (simp add: u)
  show "is_array r (length u) (fancy_cols F0 ixa)"
    using A by (simp add: is_array_def fancy_cols_def fancy_def ixa)
  show "col (fancy_cols F0 ixa) f = u ! f" if f: "f < length u" for f
  proof -
    have mem: "u ! f \<in> set ?K" using f su by (metis nth_mem)
    have lt: "index_of ?K (u ! f) < n" using index_of_less[OF mem] lK by simp
    have "col (fancy_cols F0 ixa) f = col F0 (index_of ?K (u ! f))"
      using f by (simp add: col_def fancy_cols_def fancy_def ixa)
    also have "\<dots> = ?K ! index_of ?K (u ! f)" using nth_cols[OF A r lt] by simp
    also have "\<dots> = u ! f" by (rule nth_index_of[OF mem])
    finally show ?thesis .
  qed
  show "ixb ! k < length u \<and> u ! (ixb ! k) = col F0 k" if k: "k < n" for k
  proof -
    have mem: "?K ! k \<in> set u" using k lK su by (metis nth_mem)
    have "ixb ! k = index_of u (?K ! k)" using k lK by (simp add: ixb)
    then show ?thesis
      using index_of_less[OF mem] nth_index_of[OF mem] nth_cols[OF A r k] by simp
  qed
  show "set ixb = {0..<length u}"
  proof
    show "set ixb \<subseteq> {0..<length u}"
    proof
      fix f assume "f \<in> set ixb"
      then obtain x where x: "x \<in> set ?K" and f: "f = index_of u x" by (auto simp: ixb)
      have "x \<in> set u" using x su by simp
      then show "f \<in> {0..<length u}" using index_of_less[of x u] f by simp
    qed
    show "{0..<length u} \<subseteq> set ixb"
    proof
      fix f assume "f \<in> {0..<length u}"
      then have f: "f < length u" by simp
      then have "u ! f \<in> set ?K" using su by (metis nth_mem)
      then have "index_of u (u ! f) \<in> set ixb" by (simp add: ixb)
      then show "f \<in> set ixb" using index_of_nth_distinct[OF du f] by simp
    qed
  qed
qed

lemma reshape_nth:
  assumes "length xs = r * c" "s < r" "e < c"
  shows "reshape r c xs ! s ! e = xs ! (s * c + e)"
proof -
  have "s * c + c \<le> r * c"
    using assms(2) by (metis Suc_leI mult_Suc mult_le_mono1 add.commute)
  then show ?thesis using assms by (simp add: reshape_def)
qed

lemma is_array_reshape:
  assumes "length xs = r * c"
  shows "is_array r c (reshape r c xs)"
proof (rule is_arrayI)
  show "length (reshape r c xs) = r" by (simp add: reshape_def)
  fix i assume i: "i < r"
  have "i * c + c \<le> r * c"
    using i by (metis Suc_leI mult_Suc mult_le_mono1 add.commute)
  then show "length (reshape r c xs ! i) = c" using assms i by (simp add: reshape_def)
qed

lemma concat_take_drop: "concat (map (\<lambda>i. take c (drop (i * c) xs)) [0..<r]) = take (r * c) xs"
proof (induction r)
  case 0
  then show ?case by simp
next
  case (Suc r)
  have "take (r * c) xs @ take c (drop (r * c) xs) = take (r * c + c) xs"
    by (simp add: take_add)
  then show ?case using Suc by (simp add: add.commute)
qed

lemma concat_reshape:
  assumes "length xs = r * c"
  shows "concat (map (\<lambda>i. reshape r c xs ! i) [0..<r]) = xs"
proof -
  have "map (\<lambda>i. reshape r c xs ! i) [0..<r] = map (\<lambda>i. take c (drop (i * c) xs)) [0..<r]"
    by (simp add: reshape_def)
  then have "concat (map (\<lambda>i. reshape r c xs ! i) [0..<r]) = take (r * c) xs"
    by (simp only: concat_take_drop)
  then show ?thesis using assms by simp
qed

lemma length_tile: "length (concat (replicate k (map int [0..<ne]))) = k * ne"
  by (induction k) auto

lemma nth_tile: "i < k * ne \<Longrightarrow> concat (replicate k (map int [0..<ne])) ! i = int (i mod ne)"
proof (induction k arbitrary: i)
  case 0
  then show ?case by simp
next
  case (Suc k)
  show ?case
  proof (cases "i < ne")
    case True
    then show ?thesis by (simp add: nth_append)
  next
    case False
    then have "i - ne < k * ne" using Suc.prems by simp
    from Suc.IH[OF this] False show ?thesis
      by (simp add: nth_append le_mod_geq)
  qed
qed

lemma length_assign: "length (assign r ix vals) = length r"
proof -
  have "length (fold (\<lambda>(i, v) r'. r'[i := v]) zs r) = length r" for zs
    by (induction zs arbitrary: r) auto
  then show ?thesis by (simp add: assign_def)
qed

lemma assign_nth:
  "distinct ix \<Longrightarrow> length ix = length vals \<Longrightarrow> j < length r \<Longrightarrow>
   assign r ix vals ! j = (if j \<in> set ix then vals ! index_of ix j else r ! j)"
proof (induction ix arbitrary: r vals)
  case Nil
  then show ?case by (simp add: assign_def)
next
  case (Cons i ix)
  then obtain v vs where vals: "vals = v # vs" by (cases vals) auto
  have step: "assign r (i # ix) (v # vs) = assign (r[i := v]) ix vs"
    by (simp add: assign_def)
  have "assign (r[i := v]) ix vs ! j = (if j \<in> set ix then vs ! index_of ix j else r[i := v] ! j)"
    using Cons.prems vals by (intro Cons.IH) auto
  then show ?case using Cons.prems vals step by auto
qed

lemma assign_upt:
  assumes "length vals = n" "length r = n"
  shows "assign r [0..<n] vals = vals"
proof (rule nth_equalityI)
  show "length (assign r [0..<n] vals) = length vals" using assms by (simp add: length_assign)
  fix j assume "j < length (assign r [0..<n] vals)"
  then have j: "j < n" using assms by (simp add: length_assign)
  have "index_of [0..<n] j = j" using index_of_nth_distinct[of "[0..<n]" j] j by simp
  then show "assign r [0..<n] vals ! j = vals ! j"
    using assign_nth[of "[0..<n]" vals j r] assms j by simp
qed

lemma length_assign_const: "length (assign_const r ix v) = length r"
proof -
  have "length (fold (\<lambda>i r'. r'[i := v]) ix r) = length r"
    by (induction ix arbitrary: r) auto
  then show ?thesis by (simp add: assign_const_def)
qed

lemma assign_const_nth:
  "j < length r \<Longrightarrow> assign_const r ix v ! j = (if j \<in> set ix then v else r ! j)"
proof (induction ix arbitrary: r)
  case Nil
  then show ?case by (simp add: assign_const_def)
next
  case (Cons i ix)
  have step: "assign_const r (i # ix) v = assign_const (r[i := v]) ix v"
    by (simp add: assign_const_def)
  have "assign_const (r[i := v]) ix v ! j = (if j \<in> set ix then v else r[i := v] ! j)"
    using Cons.prems by (intro Cons.IH) simp
  then show ?case using Cons.prems step by auto
qed

lemma set_np_nonzero: "set (np_nonzero bs) = {i. i < length bs \<and> bs ! i}"
  by (auto simp: np_nonzero_def)

lemma assign_const_nonzero:
  assumes "length a = n" "length b = n"
  shows "assign_const b (np_nonzero (map2 (=) a b)) v =
         map (\<lambda>j. if a ! j = b ! j then v else b ! j) [0..<n]"
proof (rule nth_equalityI)
  show "length (assign_const b (np_nonzero (map2 (=) a b)) v)
        = length (map (\<lambda>j. if a ! j = b ! j then v else b ! j) [0..<n])"
    using assms by (simp add: length_assign_const)
  fix j assume "j < length (assign_const b (np_nonzero (map2 (=) a b)) v)"
  then have j: "j < n" using assms by (simp add: length_assign_const)
  then show "assign_const b (np_nonzero (map2 (=) a b)) v ! j
        = map (\<lambda>j. if a ! j = b ! j then v else b ! j) [0..<n] ! j"
    using assms by (simp add: assign_const_nth set_np_nonzero)
qed

lemma last_index_of_props:
  assumes "x \<in> set xs"
  shows "last_index_of xs x < length xs" and "xs ! last_index_of xs x = x"
    and "\<And>k. k < length xs \<Longrightarrow> xs ! k = x \<Longrightarrow> k \<le> last_index_of xs x"
proof -
  let ?i = "index_of (rev xs) x"
  have mem: "x \<in> set (rev xs)" using assms by simp
  have lt: "?i < length xs" using index_of_less[OF mem] by simp
  show "last_index_of xs x < length xs" using lt by (simp add: last_index_of_def)
  have "rev xs ! ?i = x" by (rule nth_index_of[OF mem])
  then show "xs ! last_index_of xs x = x"
    using lt by (simp add: rev_nth last_index_of_def)
  show "k \<le> last_index_of xs x" if k: "k < length xs" and e: "xs ! k = x" for k
  proof -
    have "rev xs ! (length xs - Suc k) = x" using k e by (simp add: rev_nth)
    then have "?i \<le> length xs - Suc k"
      using k by (intro index_of_le) simp_all
    then show ?thesis using k lt by (simp add: last_index_of_def)
  qed
qed

lemma build_f2t_rows:
  assumes len: "length ixb = k * ne" and rng: "set ixb = {0..<nf}"
  shows "build_f2t k (reshape k ne ixb) ne nf =
    [map (\<lambda>f. int (index_of ixb f mod ne)) [0..<nf],
     map (\<lambda>f. if index_of ixb f mod ne = last_index_of ixb f mod ne then - 1
              else int (last_index_of ixb f mod ne)) [0..<nf]]"
proof -
  let ?tt = "concat (replicate k (map int [0..<ne]))"
  have e_tmp: "concat (map (\<lambda>i. reshape k ne ixb ! i) [0..<k]) = ixb"
    by (rule concat_reshape[OF len])
  have first: "np_unique ixb = ([0..<nf], map (index_of ixb) [0..<nf], map (index_of [0..<nf]) ixb)"
    using np_unique_range[OF rng] by (simp add: np_unique_def Let_def)
  have rng': "set (rev ixb) = {0..<nf}" using rng by simp
  have last: "np_unique (rev ixb) =
      ([0..<nf], map (index_of (rev ixb)) [0..<nf], map (index_of [0..<nf]) (rev ixb))"
    using np_unique_range[OF rng'] by (simp add: np_unique_def Let_def)
  have r0: "assign (replicate nf 0) [0..<nf] (fancy ?tt (map (index_of ixb) [0..<nf]))
      = map (\<lambda>f. int (index_of ixb f mod ne)) [0..<nf]" (is "?a0 = ?r0")
  proof -
    have "fancy ?tt (map (index_of ixb) [0..<nf]) = ?r0"
      using rng len by (auto simp: fancy_def intro!: nth_tile dest!: index_of_less[of _ ixb])
    then show ?thesis by (simp add: assign_upt)
  qed
  have r1: "assign (replicate nf 0) [0..<nf]
        (fancy ?tt (map (\<lambda>i. length ixb - i - 1) (map (index_of (rev ixb)) [0..<nf])))
      = map (\<lambda>f. int (last_index_of ixb f mod ne)) [0..<nf]" (is "?a1 = ?r1")
  proof -
    have "fancy ?tt (map (\<lambda>i. length ixb - i - 1) (map (index_of (rev ixb)) [0..<nf])) = ?r1"
    proof -
      have "?tt ! (length ixb - index_of (rev ixb) f - 1) = int (last_index_of ixb f mod ne)"
        if "f < nf" for f
      proof -
        have "f \<in> set ixb" using that rng by simp
        from last_index_of_props(1)[OF this] show ?thesis
          using len nth_tile[of "last_index_of ixb f" k ne] by (simp add: last_index_of_def)
      qed
      then show ?thesis by (simp add: fancy_def)
    qed
    then show ?thesis by (simp add: assign_upt)
  qed
  have fin: "assign_const ?r1 (np_nonzero (map2 (=) ?r0 ?r1)) (- 1) =
     map (\<lambda>f. if index_of ixb f mod ne = last_index_of ixb f mod ne then - 1
              else int (last_index_of ixb f mod ne)) [0..<nf]"
    by (subst assign_const_nonzero[where n = nf]) simp_all
  show ?thesis
    unfolding build_f2t_def e_tmp Let_def first last prod.case r0 r1 fin rev_rev_ident length_rev
    by simp
qed

lemma pos_lex:
  assumes "s * ne + e \<le> s' * ne + e'" "e < ne" "e' < (ne::nat)"
  shows "s < s' \<or> (s = s' \<and> e \<le> e')"
proof (rule ccontr)
  assume neg: "\<not> (s < s' \<or> (s = s' \<and> e \<le> e'))"
  show False
  proof (cases "s = s'")
    case True
    then show ?thesis using neg assms by simp
  next
    case False
    then have "Suc s' \<le> s" using neg by simp
    then have "Suc s' * ne \<le> s * ne" by (rule mult_le_mono1)
    then show ?thesis using assms by simp
  qed
qed

lemma pos_decomp:
  assumes "i < k * (ne::nat)"
  shows "i div ne < k" and "i mod ne < ne" and "i div ne * ne + i mod ne = i"
proof -
  have ne: "0 < ne" using assms by (cases ne) auto
  show "i div ne < k" using assms by (simp add: less_mult_imp_div_less)
  show "i mod ne < ne" using ne by simp
  show "i div ne * ne + i mod ne = i" by simp
qed

lemma pos_bound: "s < k \<Longrightarrow> e < ne \<Longrightarrow> s * ne + e < k * (ne::nat)"
proof -
  assume s: "s < k" and e: "e < ne"
  have "Suc s * ne \<le> k * ne" using s by (intro mult_le_mono1) simp
  then show ?thesis using e by simp
qed

lemma f2t_first_last_ex:
  assumes len: "length ixb = k * ne" and rng: "set ixb = {0..<nf}" and f: "f < nf"
  shows "\<exists>s e s' e'.
           is_first_ref k ne (reshape k ne ixb) f s e \<and>
           is_last_ref k ne (reshape k ne ixb) f s' e' \<and>
           build_f2t k (reshape k ne ixb) ne nf ! 0 ! f = int e \<and>
           build_f2t k (reshape k ne ixb) ne nf ! 1 ! f = (if e = e' then - 1 else int e')"
proof -
  let ?t2f = "reshape k ne ixb"
  let ?i = "index_of ixb f" and ?j = "last_index_of ixb f"
  have mem: "f \<in> set ixb" using rng f by simp
  have i: "?i < k * ne" using index_of_less[OF mem] len by simp
  have j: "?j < k * ne" using last_index_of_props(1)[OF mem] len by simp
  have t2f: "?t2f ! s ! e = ixb ! (s * ne + e)" if "s < k" "e < ne" for s e
    using reshape_nth[OF len that] .
  have first: "is_first_ref k ne ?t2f f (?i div ne) (?i mod ne)"
    unfolding is_first_ref_def
  proof (intro conjI ballI impI)
    show "?i div ne < k" "?i mod ne < ne" using pos_decomp[OF i] by simp_all
    then show "?t2f ! (?i div ne) ! (?i mod ne) = f"
      using t2f pos_decomp(3)[OF i] nth_index_of[OF mem] by simp
  next
    fix s' e' assume "s' \<in> {0..<k}" "e' \<in> {0..<ne}" and eq: "?t2f ! s' ! e' = f"
    then have s': "s' < k" and e': "e' < ne" by simp_all
    have "ixb ! (s' * ne + e') = f" using t2f[OF s' e'] eq by simp
    then have "?i \<le> s' * ne + e'"
      using pos_bound[OF s' e'] len by (intro index_of_le) simp_all
    then have "?i div ne * ne + ?i mod ne \<le> s' * ne + e'" by simp
    then show "?i div ne < s' \<or> (?i div ne = s' \<and> ?i mod ne \<le> e')"
      using pos_decomp(2)[OF i] e' by (rule pos_lex)
  qed
  have last: "is_last_ref k ne ?t2f f (?j div ne) (?j mod ne)"
    unfolding is_last_ref_def
  proof (intro conjI ballI impI)
    show "?j div ne < k" "?j mod ne < ne" using pos_decomp[OF j] by simp_all
    then show "?t2f ! (?j div ne) ! (?j mod ne) = f"
      using t2f pos_decomp(3)[OF j] last_index_of_props(2)[OF mem] by simp
  next
    fix s' e' assume "s' \<in> {0..<k}" "e' \<in> {0..<ne}" and eq: "?t2f ! s' ! e' = f"
    then have s': "s' < k" and e': "e' < ne" by simp_all
    have "ixb ! (s' * ne + e') = f" using t2f[OF s' e'] eq by simp
    then have "s' * ne + e' \<le> ?j"
      using pos_bound[OF s' e'] len by (intro last_index_of_props(3)[OF mem]) simp_all
    then have "s' * ne + e' \<le> ?j div ne * ne + ?j mod ne" by simp
    then show "s' < ?j div ne \<or> (s' = ?j div ne \<and> e' \<le> ?j mod ne)"
      using e' pos_decomp(2)[OF j] by (rule pos_lex)
  qed
  have rows: "build_f2t k ?t2f ne nf ! 0 ! f = int (?i mod ne)"
    "build_f2t k ?t2f ne nf ! 1 ! f = (if ?i mod ne = ?j mod ne then - 1 else int (?j mod ne))"
    using f by (simp_all add: build_f2t_rows[OF len rng])
  show ?thesis using first last rows by blast
qed

lemma first_ref_unique:
  "is_first_ref k ne t2f f s e \<Longrightarrow> is_first_ref k ne t2f f s' e' \<Longrightarrow> s = s' \<and> e = e'"
  unfolding is_first_ref_def by (metis atLeastLessThan_iff le_antisym less_asym zero_le)

lemma last_ref_unique:
  "is_last_ref k ne t2f f s e \<Longrightarrow> is_last_ref k ne t2f f s' e' \<Longrightarrow> s = s' \<and> e = e'"
  unfolding is_last_ref_def by (metis atLeastLessThan_iff le_antisym less_asym zero_le)

lemma hfold:
  assumes "\<forall>B \<in> set (B0 # Bs). is_array r ne B"
  shows "is_array r (Suc (length Bs) * ne) (fold (\<lambda>B E. hstack E B) Bs B0) \<and>
         (\<forall>s e. s \<le> length Bs \<longrightarrow> e < ne \<longrightarrow>
            col (fold (\<lambda>B E. hstack E B) Bs B0) (s * ne + e) = col ((B0 # Bs) ! s) e)"
  using assms
proof (induction Bs rule: rev_induct)
  case Nil
  then show ?case by simp
next
  case (snoc B Bs)
  let ?E = "fold (\<lambda>B E. hstack E B) Bs B0"
  have IH: "is_array r (Suc (length Bs) * ne) ?E"
    "\<And>s e. s \<le> length Bs \<Longrightarrow> e < ne \<Longrightarrow> col ?E (s * ne + e) = col ((B0 # Bs) ! s) e"
    using snoc by auto
  have B: "is_array r ne B" using snoc.prems by simp
  have arr: "is_array r (Suc (length Bs) * ne + ne) (hstack ?E B)"
    by (rule is_array_hstack[OF IH(1) B])
  have colE: "col (hstack ?E B) j = (if j < Suc (length Bs) * ne then col ?E j
       else col B (j - Suc (length Bs) * ne))" for j
    by (rule col_hstack[OF IH(1) B])
  show ?case
  proof (intro conjI allI impI)
    show "is_array r (Suc (length (Bs @ [B])) * ne) (fold (\<lambda>B E. hstack E B) (Bs @ [B]) B0)"
      using arr by (simp add: add.commute)
  next
    fix s e assume s: "s \<le> length (Bs @ [B])" and e: "e < ne"
    show "col (fold (\<lambda>B E. hstack E B) (Bs @ [B]) B0) (s * ne + e) = col ((B0 # Bs @ [B]) ! s) e"
    proof (cases "s \<le> length Bs")
      case True
      then have "s * ne + e < Suc (length Bs) * ne" using e pos_bound[of s "Suc (length Bs)" e ne] by simp
      moreover have "(B0 # Bs @ [B]) ! s = (B0 # Bs) ! s"
        using True by (cases s) (simp_all add: nth_append)
      ultimately show ?thesis using IH(2)[OF True e] colE by simp
    next
      case False
      then have s': "s = Suc (length Bs)" using s by simp
      then show ?thesis using colE by (simp add: nth_append)
    qed
  qed
qed

lemma block2:
  assumes "length a = ne" "length b = ne"
  shows "is_array 2 ne (np_sort_axis0 [a, b])"
    and "e < ne \<Longrightarrow> col (np_sort_axis0 [a, b]) e = sort [a ! e, b ! e]"
proof -
  have arr: "is_array 2 ne [a, b]" using assms by (simp add: is_array_def)
  show "is_array 2 ne (np_sort_axis0 [a, b])" using is_array_sort_axis0[OF arr] by simp
  show "col (np_sort_axis0 [a, b]) e = sort [a ! e, b ! e]" if "e < ne"
    using col_sort_axis0[OF arr _ that] by (simp add: col_def)
qed

lemma block3:
  assumes "length a = ne" "length b = ne" "length c = ne"
  shows "is_array 3 ne (np_sort_axis0 [a, b, c])"
    and "e < ne \<Longrightarrow> col (np_sort_axis0 [a, b, c]) e = sort [a ! e, b ! e, c ! e]"
proof -
  have arr: "is_array 3 ne [a, b, c]" using assms by (simp add: is_array_def)
  show "is_array 3 ne (np_sort_axis0 [a, b, c])" using is_array_sort_axis0[OF arr] by simp
  show "col (np_sort_axis0 [a, b, c]) e = sort [a ! e, b ! e, c ! e]" if "e < ne"
    using col_sort_axis0[OF arr _ that] by (simp add: col_def)
qed

lemma unique_blocks:
  assumes Bs: "\<forall>B \<in> set (B0 # Bs). is_array r ne B" and r: "0 < r"
    and U: "np_unique (cols (fold (\<lambda>B E. hstack E B) Bs B0)) = (u, ixa, ixb)"
  defines "F \<equiv> fancy_cols (fold (\<lambda>B E. hstack E B) Bs B0) ixa"
  shows "is_array r (ncols F) F" and "length ixb = Suc (length Bs) * ne"
    and "set ixb = {0..<ncols F}" and "sorted (cols F)" and "distinct (cols F)"
    and "\<And>s e. s \<le> length Bs \<Longrightarrow> e < ne \<Longrightarrow> col F (ixb ! (s * ne + e)) = col ((B0 # Bs) ! s) e"
proof -
  let ?G = "fold (\<lambda>B E. hstack E B) Bs B0"
  have G: "is_array r (Suc (length Bs) * ne) ?G" using conjunct1[OF hfold[OF Bs]] .
  have colG: "col ?G (s * ne + e) = col ((B0 # Bs) ! s) e" if "s \<le> length Bs" "e < ne" for s e
    using conjunct2[OF hfold[OF Bs]] that by blast
  note ut = unique_tables[OF G r U]
  have ncF: "ncols F = length u" unfolding F_def using ncols_array[OF ut(5) r] .
  have colsF: "cols F = u"
  proof (rule nth_equalityI)
    show "length (cols F) = length u" unfolding F_def using length_cols[OF ut(5) r] .
    fix f assume "f < length (cols F)"
    then have f: "f < length u" unfolding F_def using length_cols[OF ut(5) r] by simp
    show "cols F ! f = u ! f" unfolding F_def using nth_cols[OF ut(5) r f] ut(6)[OF f] by simp
  qed
  show "is_array r (ncols F) F" unfolding ncF unfolding F_def by (rule ut(5))
  show "length ixb = Suc (length Bs) * ne" by (rule ut(1))
  show "set ixb = {0..<ncols F}" unfolding ncF by (rule ut(8))
  show "sorted (cols F)" unfolding colsF by (rule ut(2))
  show "distinct (cols F)" unfolding colsF by (rule ut(3))
  show "col F (ixb ! (s * ne + e)) = col ((B0 # Bs) ! s) e" if s: "s \<le> length Bs" and e: "e < ne" for s e
  proof -
    have "s < Suc (length Bs)" using s by simp
    then have pos: "s * ne + e < Suc (length Bs) * ne" using e by (rule pos_bound)
    have a: "ixb ! (s * ne + e) < length u" "u ! (ixb ! (s * ne + e)) = col ?G (s * ne + e)"
      using ut(7)[OF pos] by blast+
    have "col F (ixb ! (s * ne + e)) = col ?G (s * ne + e)"
      unfolding F_def using ut(6)[OF a(1)] a(2) by simp
    then show ?thesis using colG[OF s e] by simp
  qed
qed

lemma MeshTri_build_props:
  assumes t: "is_array 3 ne (mesh_t m0)"
  shows "\<exists>m ixb.
     MeshTri_build_mappings m0 = Inr m \<and>
     mesh_p m = mesh_p m0 \<and> mesh_t m = np_sort_axis0 (mesh_t m0) \<and>
     is_array 2 (ncols (mesh_facets m)) (mesh_facets m) \<and>
     length ixb = 3 * ne \<and> set ixb = {0..<ncols (mesh_facets m)} \<and>
     mesh_t2f m = reshape 3 ne ixb \<and>
     mesh_f2t m = build_f2t 3 (reshape 3 ne ixb) ne (ncols (mesh_facets m)) \<and>
     sorted (cols (mesh_facets m)) \<and> distinct (cols (mesh_facets m)) \<and>
     (\<forall>s e. s < 3 \<longrightarrow> e < ne \<longrightarrow>
        col (mesh_facets m) (ixb ! (s * ne + e))
          = sort [mesh_t m ! fst (tri_slots ! s) ! e, mesh_t m ! snd (tri_slots ! s) ! e])"
proof -
  let ?t = "np_sort_axis0 (mesh_t m0)"
  let ?Ba = "np_sort_axis0 [?t ! 0, ?t ! 1]"
  let ?Bb = "np_sort_axis0 [?t ! 1, ?t ! 2]"
  let ?Bc = "np_sort_axis0 [?t ! 0, ?t ! 2]"
  let ?G = "hstack (hstack ?Ba ?Bb) ?Bc"
  have ts: "is_array 3 ne ?t" using is_array_sort_axis0[OF t] by simp
  have l: "length (?t ! 0) = ne" "length (?t ! 1) = ne" "length (?t ! 2) = ne"
    using ts by (simp_all add: is_array_nth)
  have nc: "ncols ?t = ne" using ncols_array[OF ts] by simp
  have Bs: "\<forall>B \<in> set (?Ba # [?Bb, ?Bc]). is_array 2 ne B"
    using l by (simp add: block2)
  have Geq: "?G = fold (\<lambda>B E. hstack E B) [?Bb, ?Bc] ?Ba" by simp
  obtain u ixa ixb where U: "np_unique (cols ?G) = (u, ixa, ixb)"
    by (cases "np_unique (cols ?G)") auto
  have r2: "0 < (2::nat)" by simp
  note ub = unique_blocks[OF Bs r2 U[unfolded Geq], folded Geq]
  let ?F = "fancy_cols ?G ixa"
  define m where "m = \<lparr>mesh_p = mesh_p m0, mesh_t = ?t, mesh_facets = ?F,
             mesh_t2f = reshape 3 ne ixb, mesh_f2t = build_f2t 3 (reshape 3 ne ixb) ne (ncols ?F)\<rparr>"
  have lt: "\<not> length (mesh_t m0) < 3" using t by (simp add: is_array_def)
  have build: "MeshTri_build_mappings m0 = Inr m"
    unfolding MeshTri_build_mappings_def Let_def m_def using lt U by (simp add: nc)
  have sel: "mesh_p m = mesh_p m0" "mesh_t m = ?t" "mesh_facets m = ?F"
    "mesh_t2f m = reshape 3 ne ixb"
    "mesh_f2t m = build_f2t 3 (reshape 3 ne ixb) ne (ncols ?F)"
    by (simp_all add: m_def)
  have key: "col ?F (ixb ! (s * ne + e)) = sort [?t ! fst (tri_slots ! s) ! e, ?t ! snd (tri_slots ! s) ! e]"
    if s: "s < 3" and e: "e < ne" for s e
  proof -
    have "col ?F (ixb ! (s * ne + e)) = col ((?Ba # [?Bb, ?Bc]) ! s) e"
      using ub(6)[of s e] s e by simp
    also have "\<dots> = sort [?t ! fst (tri_slots ! s) ! e, ?t ! snd (tri_slots ! s) ! e]"
    proof -
      consider "s = 0" | "s = 1" | "s = 2" using s by linarith
      then show ?thesis
      proof cases
        case 1
        then show ?thesis using block2(2)[OF l(1) l(2) e] by (simp add: tri_slots_def)
      next
        case 2
        then show ?thesis using block2(2)[OF l(2) l(3) e] by (simp add: tri_slots_def)
      next
        case 3
        then show ?thesis using block2(2)[OF l(1) l(3) e] by (simp add: tri_slots_def)
      qed
    qed
    finally show ?thesis .
  qed
  have len: "length ixb = 3 * ne" using ub(2) by simp
  show ?thesis
  proof (intro exI[of _ m] exI[of _ ixb] conjI allI impI)
    show "MeshTri_build_mappings m0 = Inr m" by (rule build)
    show "mesh_p m = mesh_p m0" by (rule sel)
    show "mesh_t m = np_sort_axis0 (mesh_t m0)" by (rule sel)
    show "is_array 2 (ncols (mesh_facets m)) (mesh_facets m)" unfolding sel by (rule ub(1))
    show "length ixb = 3 * ne" by (rule len)
    show "set ixb = {0..<ncols (mesh_facets m)}" unfolding sel by (rule ub(3))
    show "mesh_t2f m = reshape 3 ne ixb" by (rule sel)
    show "mesh_f2t m = build_f2t 3 (reshape 3 ne ixb) ne (ncols (mesh_facets m))"
      unfolding sel by (rule refl)
    show "sorted (cols (mesh_facets m))" unfolding sel by (rule ub(4))
    show "distinct (cols (mesh_facets m))" unfolding sel by (rule ub(5))
    fix s e :: nat assume "s < 3" "e < ne"
    from key[OF this]
    show "col (mesh_facets m) (ixb ! (s * ne + e))
          = sort [mesh_t m ! fst (tri_slots ! s) ! e, mesh_t m ! snd (tri_slots ! s) ! e]"
      unfolding sel .
  qed
qed

lemma upt5: "[0..<5] = [0, 1, 2, 3, 4]" by code_simp
lemma upt3: "[0..<3] = [0, 1, 2]" by code_simp

lemma tet_edges0:
  "fold (\<lambda>i E. hstack E (np_sort_axis0 [t ! ([1, 2, 0, 2, 0, 3, 1, 3, 2, 3] ! (2 * i)),
                                            t ! ([1, 2, 0, 2, 0, 3, 1, 3, 2, 3] ! (2 * i + 1))]))
        [0..<5] E0
   = fold (\<lambda>B E. hstack E B)
       [np_sort_axis0 [t ! 1, t ! 2], np_sort_axis0 [t ! 0, t ! 2], np_sort_axis0 [t ! 0, t ! 3],
        np_sort_axis0 [t ! 1, t ! 3], np_sort_axis0 [t ! 2, t ! 3]] E0"
  unfolding upt5 by simp

lemma tet_facets0:
  "fold (\<lambda>i F. hstack F (np_sort_axis0 [t ! ([0, 1, 3, 0, 2, 3, 1, 2, 3] ! (2 * i)),
                                            t ! ([0, 1, 3, 0, 2, 3, 1, 2, 3] ! (2 * i + 1)),
                                            t ! ([0, 1, 3, 0, 2, 3, 1, 2, 3] ! (2 * i + 2))]))
        [0..<3] F0
   = fold (\<lambda>B E. hstack E B)
       [np_sort_axis0 [t ! 0, t ! 1, t ! 3], np_sort_axis0 [t ! 3, t ! 0, t ! 2],
        np_sort_axis0 [t ! 2, t ! 3, t ! 1]] F0"
  unfolding upt3 by simp

lemma MeshTet_build_props:
  assumes t: "is_array 4 ne (mesh_t m0)"
  shows "\<exists>m ixe ixf.
     MeshTet_build_mappings m0 = Inr m \<and>
     mesh_p m = mesh_p m0 \<and> mesh_t m = mesh_t m0 \<and>
     is_array 2 (ncols (mesh_edges m)) (mesh_edges m) \<and>
     length ixe = 6 * ne \<and> set ixe = {0..<ncols (mesh_edges m)} \<and>
     mesh_t2e m = reshape 6 ne ixe \<and>
     sorted (cols (mesh_edges m)) \<and> distinct (cols (mesh_edges m)) \<and>
     (\<forall>s e. s < 6 \<longrightarrow> e < ne \<longrightarrow>
        col (mesh_edges m) (ixe ! (s * ne + e))
          = sort [mesh_t m ! fst (tet_edge_slots ! s) ! e, mesh_t m ! snd (tet_edge_slots ! s) ! e]) \<and>
     is_array 3 (ncols (mesh_facets m)) (mesh_facets m) \<and>
     length ixf = 4 * ne \<and> set ixf = {0..<ncols (mesh_facets m)} \<and>
     mesh_t2f m = reshape 4 ne ixf \<and>
     mesh_f2t m = build_f2t 4 (reshape 4 ne ixf) ne (ncols (mesh_facets m)) \<and>
     sorted (cols (mesh_facets m)) \<and> distinct (cols (mesh_facets m)) \<and>
     (\<forall>s e. s < 4 \<longrightarrow> e < ne \<longrightarrow>
        col (mesh_facets m) (ixf ! (s * ne + e))
          = sort (map (\<lambda>a. mesh_t m ! a ! e) (tet_facet_slots ! s)))"
proof -
  let ?t = "mesh_t m0"
  let ?Ea = "np_sort_axis0 [?t ! 0, ?t ! 1]"
  let ?Es = "[np_sort_axis0 [?t ! 1, ?t ! 2], np_sort_axis0 [?t ! 0, ?t ! 2],
              np_sort_axis0 [?t ! 0, ?t ! 3], np_sort_axis0 [?t ! 1, ?t ! 3],
              np_sort_axis0 [?t ! 2, ?t ! 3]]"
  let ?GE = "fold (\<lambda>B E. hstack E B) ?Es ?Ea"
  let ?Fa = "np_sort_axis0 [?t ! 0, ?t ! 1, ?t ! 2]"
  let ?Fs = "[np_sort_axis0 [?t ! 0, ?t ! 1, ?t ! 3], np_sort_axis0 [?t ! 3, ?t ! 0, ?t ! 2],
              np_sort_axis0 [?t ! 2, ?t ! 3, ?t ! 1]]"
  let ?GF = "fold (\<lambda>B E. hstack E B) ?Fs ?Fa"
  have l: "length (?t ! 0) = ne" "length (?t ! 1) = ne" "length (?t ! 2) = ne" "length (?t ! 3) = ne"
    using t by (simp_all add: is_array_nth)
  have nc: "ncols ?t = ne" using ncols_array[OF t] by simp
  have BE: "\<forall>B \<in> set (?Ea # ?Es). is_array 2 ne B" using l by (simp add: block2)
  have BF: "\<forall>B \<in> set (?Fa # ?Fs). is_array 3 ne B" using l by (simp add: block3)
  obtain ue ixa ixe where UE: "np_unique (cols ?GE) = (ue, ixa, ixe)"
    by (cases "np_unique (cols ?GE)") auto
  obtain uf ixa' ixf where UF: "np_unique (cols ?GF) = (uf, ixa', ixf)"
    by (cases "np_unique (cols ?GF)") auto
  have r2: "0 < (2::nat)" and r3: "0 < (3::nat)" by simp_all
  note ube = unique_blocks[OF BE r2 UE]
  note ubf = unique_blocks[OF BF r3 UF]
  let ?E = "fancy_cols ?GE ixa"
  let ?F = "fancy_cols ?GF ixa'"
  define m where "m = \<lparr>mesh_p = mesh_p m0, mesh_t = ?t, mesh_facets = ?F,
      mesh_t2f = reshape 4 ne ixf, mesh_f2t = build_f2t 4 (reshape 4 ne ixf) ne (ncols ?F),
      mesh_edges = ?E, mesh_t2e = reshape 6 ne ixe\<rparr>"
  have lt: "\<not> length (mesh_t m0) < 4" using t by (simp add: is_array_def)
  have build: "MeshTet_build_mappings m0 = Inr m"
    unfolding MeshTet_build_mappings_def Let_def tet_edges0 tet_facets0 m_def
    using lt UE UF by (simp add: nc)
  have sel: "mesh_p m = mesh_p m0" "mesh_t m = ?t" "mesh_facets m = ?F" "mesh_edges m = ?E"
    "mesh_t2f m = reshape 4 ne ixf" "mesh_t2e m = reshape 6 ne ixe"
    "mesh_f2t m = build_f2t 4 (reshape 4 ne ixf) ne (ncols ?F)"
    by (simp_all add: m_def)
  have keyE: "col ?E (ixe ! (s * ne + e))
      = sort [?t ! fst (tet_edge_slots ! s) ! e, ?t ! snd (tet_edge_slots ! s) ! e]"
    if s: "s < 6" and e: "e < ne" for s e
  proof -
    have "col ?E (ixe ! (s * ne + e)) = col ((?Ea # ?Es) ! s) e"
      using ube(6)[of s e] s e by simp
    also have "\<dots> = sort [?t ! fst (tet_edge_slots ! s) ! e, ?t ! snd (tet_edge_slots ! s) ! e]"
    proof -
      consider "s = 0" | "s = 1" | "s = 2" | "s = 3" | "s = 4" | "s = 5" using s by linarith
      then show ?thesis
      proof cases
        case 1
        then show ?thesis using block2(2)[OF l(1) l(2) e] by (simp add: tet_edge_slots_def)
      next
        case 2
        then show ?thesis using block2(2)[OF l(2) l(3) e] by (simp add: tet_edge_slots_def)
      next
        case 3
        then show ?thesis using block2(2)[OF l(1) l(3) e] by (simp add: tet_edge_slots_def)
      next
        case 4
        then show ?thesis using block2(2)[OF l(1) l(4) e] by (simp add: tet_edge_slots_def)
      next
        case 5
        then show ?thesis using block2(2)[OF l(2) l(4) e] by (simp add: tet_edge_slots_def)
      next
        case 6
        then show ?thesis using block2(2)[OF l(3) l(4) e] by (simp add: tet_edge_slots_def)
      qed
    qed
    finally show ?thesis .
  qed
  have keyF: "col ?F (ixf ! (s * ne + e)) = sort (map (\<lambda>a. ?t ! a ! e) (tet_facet_slots ! s))"
    if s: "s < 4" and e: "e < ne" for s e
  proof -
    have "col ?F (ixf ! (s * ne + e)) = col ((?Fa # ?Fs) ! s) e"
      using ubf(6)[of s e] s e by simp
    also have "\<dots> = sort (map (\<lambda>a. ?t ! a ! e) (tet_facet_slots ! s))"
    proof -
      consider "s = 0" | "s = 1" | "s = 2" | "s = 3" using s by linarith
      then show ?thesis
      proof cases
        case 1
        then show ?thesis using block3(2)[OF l(1) l(2) l(3) e] by (simp add: tet_facet_slots_def)
      next
        case 2
        then show ?thesis using block3(2)[OF l(1) l(2) l(4) e] by (simp add: tet_facet_slots_def)
      next
        case 3
        then show ?thesis using block3(2)[OF l(4) l(1) l(3) e] by (simp add: tet_facet_slots_def)
      next
        case 4
        then show ?thesis using block3(2)[OF l(3) l(4) l(2) e] by (simp add: tet_facet_slots_def)
      qed
    qed
    finally show ?thesis .
  qed
  have lenE: "length ixe = 6 * ne" using ube(2) by simp
  have lenF: "length ixf = 4 * ne" using ubf(2) by simp
  show ?thesis
  proof (rule exI[of _ m], rule exI[of _ ixe], rule exI[of _ ixf], intro conjI allI impI)
    show "MeshTet_build_mappings m0 = Inr m" by (rule build)
    show "mesh_p m = mesh_p m0" by (rule sel)
    show "mesh_t m = mesh_t m0" by (rule sel)
    show "is_array 2 (ncols (mesh_edges m)) (mesh_edges m)" unfolding sel by (rule ube(1))
    show "length ixe = 6 * ne" by (rule lenE)
    show "set ixe = {0..<ncols (mesh_edges m)}" unfolding sel by (rule ube(3))
    show "mesh_t2e m = reshape 6 ne ixe" by (rule sel)
    show "sorted (cols (mesh_edges m))" unfolding sel by (rule ube(4))
    show "distinct (cols (mesh_edges m))" unfolding sel by (rule ube(5))
    show "is_array 3 (ncols (mesh_facets m)) (mesh_facets m)" unfolding sel by (rule ubf(1))
    show "length ixf = 4 * ne" by (rule lenF)
    show "set ixf = {0..<ncols (mesh_facets m)}" unfolding sel by (rule ubf(3))
    show "mesh_t2f m = reshape 4 ne ixf" by (rule sel)
    show "mesh_f2t m = build_f2t 4 (reshape 4 ne ixf) ne (ncols (mesh_facets m))"
      unfolding sel by (rule refl)
    show "sorted (cols (mesh_facets m))" unfolding sel by (rule ubf(4))
    show "distinct (cols (mesh_facets m))" unfolding sel by (rule ubf(5))
  next
    fix s e :: nat assume "s < 6" "e < ne"
    from keyE[OF this]
    show "col (mesh_edges m) (ixe ! (s * ne + e))
          = sort [mesh_t m ! fst (tet_edge_slots ! s) ! e, mesh_t m ! snd (tet_edge_slots ! s) ! e]"
      unfolding sel .
  next
    fix s e :: nat assume "s < 4" "e < ne"
    from keyF[OF this]
    show "col (mesh_facets m) (ixf ! (s * ne + e))
          = sort (map (\<lambda>a. mesh_t m ! a ! e) (tet_facet_slots ! s))"
      unfolding sel .
  qed
qed

lemma pos_inj:
  assumes "s * ne + e = s' * ne + e'" "e < ne" "e' < (ne::nat)"
  shows "s = s' \<and> e = e'"
proof -
  have a: "s < s' \<or> (s = s' \<and> e \<le> e')" using assms by (intro pos_lex) simp_all
  have b: "s' < s \<or> (s' = s \<and> e' \<le> e)" using assms by (intro pos_lex) simp_all
  show ?thesis using a b by linarith
qed

lemma concat_reshape': "length xs = r * c \<Longrightarrow> concat (reshape r c xs) = xs"
  by (simp add: reshape_def concat_take_drop)

lemma count_list_card: "count_list xs x = card {i. i < length xs \<and> xs ! i = x}"
proof -
  have "{i. i < length xs \<and> x = xs ! i} = {i. i < length xs \<and> xs ! i = x}" by auto
  then show ?thesis by (simp add: count_list_eq_length_filter length_filter_conv_card)
qed

lemma set_ref_elements:
  "set (ref_elements k ne t2f f) = {x. x < ne \<and> (\<exists>s < k. t2f ! s ! x = f)}"
  by (auto simp: ref_elements_def)

lemma distinct_ref_elements: "distinct (ref_elements k ne t2f f)"
  by (simp add: ref_elements_def)

lemma refs_at_most_two:
  assumes len: "length ixb = k * ne" and cnt: "ref_count (reshape k ne ixb) f \<le> 2"
    and first: "is_first_ref k ne (reshape k ne ixb) f s e"
    and last: "is_last_ref k ne (reshape k ne ixb) f s' e'"
    and ref: "s'' < k" "x < ne" "reshape k ne ixb ! s'' ! x = f"
  shows "(s'' = s \<and> x = e) \<or> (s'' = s' \<and> x = e')"
proof (rule ccontr)
  assume neg: "\<not> ((s'' = s \<and> x = e) \<or> (s'' = s' \<and> x = e'))"
  let ?t2f = "reshape k ne ixb"
  have f1: "s < k" "e < ne" "?t2f ! s ! e = f" using first by (simp_all add: is_first_ref_def)
  have l1: "s' < k" "e' < ne" "?t2f ! s' ! e' = f" using last by (simp_all add: is_last_ref_def)
  have lo: "s < s'' \<or> (s = s'' \<and> e \<le> x)" using first ref by (simp add: is_first_ref_def)
  have hi: "s'' < s' \<or> (s'' = s' \<and> x \<le> e')" using last ref by (simp add: is_last_ref_def)
  have ne1: "\<not> (s = s' \<and> e = e')" using lo hi neg by linarith
  let ?p = "s * ne + e" and ?q = "s' * ne + e'" and ?r = "s'' * ne + x"
  let ?S = "{i. i < length ixb \<and> ixb ! i = f}"
  have at: "ixb ! (a * ne + b) = f \<and> a * ne + b < length ixb"
    if "a < k" "b < ne" "?t2f ! a ! b = f" for a b
    using that reshape_nth[OF len that(1,2)] pos_bound[OF that(1,2)] len by simp
  have inS: "?p \<in> ?S" "?q \<in> ?S" "?r \<in> ?S"
    using at[OF f1] at[OF l1] at[OF ref] by simp_all
  have d1: "?p \<noteq> ?q" using pos_inj[of s ne e s' e'] f1(2) l1(2) ne1 by blast
  have d2: "?p \<noteq> ?r" using pos_inj[of s ne e s'' x] f1(2) ref(2) neg by blast
  have d3: "?q \<noteq> ?r" using pos_inj[of s' ne e' s'' x] l1(2) ref(2) neg by blast
  note dist = d1 d2 d3
  have "card {?p, ?q, ?r} = 3" using dist by simp
  moreover have "card {?p, ?q, ?r} \<le> card ?S"
    using inS by (intro card_mono) auto
  moreover have "card ?S \<le> 2"
    using cnt by (simp add: ref_count_def concat_reshape'[OF len] count_list_card)
  ultimately show False by simp
qed

lemma f2t_props:
  assumes len: "length ixb = k * ne" and rng: "set ixb = {0..<nf}" and f: "f < nf"
    and t2f: "t2f = reshape k ne ixb" and f2t: "f2t = build_f2t k t2f ne nf"
  shows "f2t ! 0 ! f \<in> int ` set (ref_elements k ne t2f f)"
    and "f2t ! 1 ! f = - 1 \<or> f2t ! 1 ! f \<in> int ` set (ref_elements k ne t2f f)"
    and "ref_count t2f f \<le> 2 \<Longrightarrow> (f2t ! 1 ! f = - 1) = (length (ref_elements k ne t2f f) = 1)"
    and "ref_count t2f f \<le> 2 \<Longrightarrow> x \<in> set (ref_elements k ne t2f f) \<Longrightarrow> int x \<noteq> f2t ! 0 ! f
           \<Longrightarrow> f2t ! 1 ! f = int x"
proof -
  let ?R = "ref_elements k ne t2f f"
  have "\<exists>s e s' e'. is_first_ref k ne t2f f s e \<and> is_last_ref k ne t2f f s' e' \<and>
           f2t ! 0 ! f = int e \<and> f2t ! 1 ! f = (if e = e' then - 1 else int e')"
    unfolding f2t unfolding t2f by (rule f2t_first_last_ex[OF len rng f])
  then obtain s e s' e' where
    first: "is_first_ref k ne t2f f s e" and last: "is_last_ref k ne t2f f s' e'"
    and r0: "f2t ! 0 ! f = int e" and r1: "f2t ! 1 ! f = (if e = e' then - 1 else int e')"
    by (elim exE conjE)
  have f1: "s < k" "e < ne" "t2f ! s ! e = f" using first by (simp_all add: is_first_ref_def)
  have l1: "s' < k" "e' < ne" "t2f ! s' ! e' = f" using last by (simp_all add: is_last_ref_def)
  have e_in: "e \<in> set ?R" unfolding set_ref_elements using f1 by blast
  have e'_in: "e' \<in> set ?R" unfolding set_ref_elements using l1 by blast
  show "f2t ! 0 ! f \<in> int ` set ?R" unfolding r0 using e_in by (rule imageI)
  show "f2t ! 1 ! f = - 1 \<or> f2t ! 1 ! f \<in> int ` set ?R"
  proof (cases "e = e'")
    case True
    then show ?thesis using r1 by simp
  next
    case False
    then have "f2t ! 1 ! f = int e'" using r1 by simp
    then show ?thesis using e'_in by simp
  qed
  have two: "y = e \<or> y = e'" if cnt: "ref_count t2f f \<le> 2" and y: "y \<in> set ?R" for y
  proof -
    from y obtain s'' where r: "s'' < k" "y < ne" "t2f ! s'' ! y = f"
      unfolding set_ref_elements by blast
    have "(s'' = s \<and> y = e) \<or> (s'' = s' \<and> y = e')"
      using refs_at_most_two[OF len, of f s e s' e' s'' y] cnt first last r unfolding t2f by blast
    then show ?thesis by blast
  qed
  have len_card: "length ?R = card (set ?R)"
    using distinct_card[OF distinct_ref_elements[of k ne t2f f]] by simp
  show "(f2t ! 1 ! f = - 1) = (length ?R = 1)" if cnt: "ref_count t2f f \<le> 2"
  proof
    assume "f2t ! 1 ! f = - 1"
    then have ee: "e = e'" using r1 by (cases "e = e'") simp_all
    have "set ?R \<subseteq> {e}" using two[OF cnt] ee by blast
    then have "set ?R = {e}" using e_in by blast
    then show "length ?R = 1" unfolding len_card by simp
  next
    assume "length ?R = 1"
    then have "card (set ?R) = 1" unfolding len_card .
    then have "card (set ?R) = Suc 0" by simp
    then have "\<exists>y. set ?R = {y}" by (simp only: card_1_singleton_iff)
    then obtain y where "set ?R = {y}" by (elim exE)
    then have "e = e'" using e_in e'_in by simp
    then show "f2t ! 1 ! f = - 1" using r1 by simp
  qed
  show "f2t ! 1 ! f = int x"
    if cnt: "ref_count t2f f \<le> 2" and x: "x \<in> set ?R" and d: "int x \<noteq> f2t ! 0 ! f"
  proof -
    have "x \<noteq> e" using d r0 by auto
    then have "x = e'" using two[OF cnt x] by blast
    then show ?thesis using r1 \<open>x \<noteq> e\<close> by auto
  qed
qed

lemma validate_Inr_iff:
  "validate rd p t = Inr () \<longleftrightarrow>
     t \<noteq> [] \<and> hd t \<noteq> [] \<and> length p \<le> 3 \<and> length t = nvertices rd \<and>
     {0..<ncols p} \<subseteq> set (concat t) \<and> distinct (cols p)"
proof -
  have a: "length (np_setdiff1d [0..<ncols p] (fst (np_unique (concat t)))) \<noteq> 0
        \<longleftrightarrow> \<not> {0..<ncols p} \<subseteq> set (concat t)"
  proof -
    have "set (np_setdiff1d [0..<ncols p] (fst (np_unique (concat t)))) = {0..<ncols p} - set (concat t)"
      by (auto simp: np_setdiff1d_def np_unique_fst)
    then show ?thesis by (metis Diff_eq_empty_iff length_0_conv set_empty)
  qed
  have b: "ncols p \<noteq> length (fst (np_unique (cols p))) \<longleftrightarrow> \<not> distinct (cols p)"
  proof -
    have "length (cols p) = ncols p" by (simp add: cols_def)
    moreover have "length (fst (np_unique (cols p))) = length (remdups (cols p))"
      by (simp add: np_unique_fst)
    ultimately show ?thesis
      by (metis length_remdups_eq remdups_id_iff_distinct)
  qed
  show ?thesis unfolding validate_def a b by auto
qed

lemma f2t_first_last_bex:
  assumes len: "length ixb = k * ne" and rng: "set ixb = {0..<nf}" and f: "f < nf"
  shows "f2t_first_last k ne (reshape k ne ixb) (build_f2t k (reshape k ne ixb) ne nf) f"
proof -
  from f2t_first_last_ex[OF len rng f] obtain s e s' e' where
    a: "is_first_ref k ne (reshape k ne ixb) f s e" and b: "is_last_ref k ne (reshape k ne ixb) f s' e'"
    and c: "build_f2t k (reshape k ne ixb) ne nf ! 0 ! f = int e"
       "build_f2t k (reshape k ne ixb) ne nf ! 1 ! f = (if e = e' then - 1 else int e')"
    by (elim exE conjE)
  have "s \<in> {0..<k}" "e \<in> {0..<ne}" using a by (simp_all add: is_first_ref_def)
  moreover have "s' \<in> {0..<k}" "e' \<in> {0..<ne}" using b by (simp_all add: is_last_ref_def)
  ultimately show ?thesis unfolding f2t_first_last_def using a b c by blast
qed

lemma MeshTri_tables:
  assumes t: "is_array 3 ne t"
  shows "\<exists>m ixb. MeshTri_build_mappings \<lparr>mesh_p = p, mesh_t = t\<rparr> = Inr m \<and>
           length ixb = 3 * ne \<and> set ixb = {0..<ncols (mesh_facets m)} \<and>
           mesh_t2f m = reshape 3 ne ixb \<and>
           mesh_f2t m = build_f2t 3 (mesh_t2f m) ne (ncols (mesh_facets m))"
proof -
  have "is_array 3 ne (mesh_t \<lparr>mesh_p = p, mesh_t = t\<rparr>)" using t by simp
  from MeshTri_build_props[OF this] show ?thesis by (elim exE conjE) auto
qed

lemma MeshTet_tables:
  assumes t: "is_array 4 ne t"
  shows "\<exists>m ixb. MeshTet_build_mappings \<lparr>mesh_p = p, mesh_t = t\<rparr> = Inr m \<and>
           length ixb = 4 * ne \<and> set ixb = {0..<ncols (mesh_facets m)} \<and>
           mesh_t2f m = reshape 4 ne ixb \<and>
           mesh_f2t m = build_f2t 4 (mesh_t2f m) ne (ncols (mesh_facets m))"
proof -
  have "is_array 4 ne (mesh_t \<lparr>mesh_p = p, mesh_t = t\<rparr>)" using t by simp
  from MeshTet_build_props[OF this] show ?thesis by (elim exE conjE) auto
qed

lemma default_tri_built:
  "MeshTri_build_mappings \<lparr>mesh_p = [[0, 1, 0, 1], [0, 0, 1, 1]], mesh_t = [[0, 1], [1, 3], [2, 2]]\<rparr> =
   Inr \<lparr>mesh_p = [[0, 1, 0, 1], [0, 0, 1, 1]],
        mesh_t = [[0, 1], [1, 2], [2, 3]],
        mesh_facets = [[0, 0, 1, 1, 2], [1, 2, 2, 3, 3]],
        mesh_t2f = [[0, 2], [2, 4], [1, 3]],
        mesh_f2t = [[0, 0, 1, 1, 1], [- 1, - 1, 0, - 1, - 1]]\<rparr>"
  by code_simp

lemma unit_tet_built:
  "MeshTet_build_mappings \<lparr>mesh_p = cols [[0, 0, 0], [1, 0, 0], [0, 1, 0], [0, 0, 1]],
                            mesh_t = unit_tet_t\<rparr> =
   Inr \<lparr>mesh_p = [[0, 1, 0, 0], [0, 0, 1, 0], [0, 0, 0, 1]],
        mesh_t = [[0], [1], [2], [3]],
        mesh_facets = [[0, 0, 0, 1], [1, 1, 2, 2], [2, 3, 3, 3]],
        mesh_t2f = [[0], [1], [2], [3]],
        mesh_f2t = [[0, 0, 0, 0], [- 1, - 1, - 1, - 1]],
        mesh_edges = [[0, 0, 0, 1, 1, 2], [1, 2, 3, 2, 3, 3]],
        mesh_t2e = [[0], [3], [1], [2], [4], [5]]\<rparr>"
  by code_simp

lemma sorted_col_sort_axis0:
  assumes "is_array k n M" "0 < k" "j < n"
  shows "sorted (col (np_sort_axis0 M) j)" and "set (col (np_sort_axis0 M) j) = set (col M j)"
    and "distinct (col (np_sort_axis0 M) j) = distinct (col M j)"
  using col_sort_axis0[OF assms] by simp_all

lemma indices_below_nth:
  "indices_below V t \<Longrightarrow> i < length t \<Longrightarrow> j < length (t ! i) \<Longrightarrow> t ! i ! j < V"
  unfolding indices_below_def by (meson nth_mem)

lemma indices_below_col:
  assumes "indices_below V t" "is_array k n t" "j < n"
  shows "\<forall>x \<in> set (col t j). x < V"
proof
  fix x assume "x \<in> set (col t j)"
  then obtain i where i: "i < length t" and x: "x = t ! i ! j"
    by (auto simp: col_def in_set_conv_nth)
  have "length (t ! i) = n" using assms(2) i by (simp add: is_array_def)
  then show "x < V" using indices_below_nth[OF assms(1) i] assms(3) x by simp
qed

lemma shift_nth:
  "i < length M \<Longrightarrow> map (map (\<lambda>x. x + (d::nat))) M ! i = map (\<lambda>x. x + d) (M ! i)"
  by simp

lemma is_array_shift:
  "is_array k n M \<Longrightarrow> is_array k n (map (map (\<lambda>x. x + (d::nat))) M)"
  by (simp add: is_array_def)

lemma MeshTri_newt_fold:
  "MeshTri_newt t s = fold (\<lambda>B E. hstack E B)
     [[t ! 1, s ! 0, s ! 1], [t ! 2, s ! 2, s ! 1], [s ! 0, s ! 1, s ! 2]] [t ! 0, s ! 0, s ! 2]"
  by (simp add: MeshTri_newt_def Let_def)

lemma MeshTri_newt_props:
  assumes t: "is_array 3 ne t" and s: "is_array 3 ne s"
  shows "is_array 3 (4 * ne) (MeshTri_newt t s)"
    and "\<And>i. i < ne \<Longrightarrow> col (MeshTri_newt t s) i = [t ! 0 ! i, s ! 0 ! i, s ! 2 ! i]"
    and "\<And>i. i < ne \<Longrightarrow> col (MeshTri_newt t s) (ne + i) = [t ! 1 ! i, s ! 0 ! i, s ! 1 ! i]"
    and "\<And>i. i < ne \<Longrightarrow> col (MeshTri_newt t s) (2 * ne + i) = [t ! 2 ! i, s ! 2 ! i, s ! 1 ! i]"
    and "\<And>i. i < ne \<Longrightarrow> col (MeshTri_newt t s) (3 * ne + i) = [s ! 0 ! i, s ! 1 ! i, s ! 2 ! i]"
proof -
  let ?Na = "[t ! 0, s ! 0, s ! 2]"
  let ?Ns = "[[t ! 1, s ! 0, s ! 1], [t ! 2, s ! 2, s ! 1], [s ! 0, s ! 1, s ! 2]]"
  have l: "length (t ! 0) = ne" "length (t ! 1) = ne" "length (t ! 2) = ne"
    "length (s ! 0) = ne" "length (s ! 1) = ne" "length (s ! 2) = ne"
    using t s by (simp_all add: is_array_nth)
  have Bs: "\<forall>B \<in> set (?Na # ?Ns). is_array 3 ne B" using l by (simp add: is_array_def)
  have four: "ne + (ne + (ne + ne)) = 4 * ne" by simp
  show "is_array 3 (4 * ne) (MeshTri_newt t s)"
    using conjunct1[OF hfold[OF Bs]] unfolding MeshTri_newt_fold by (simp add: four)
  have c: "col (MeshTri_newt t s) (b * ne + i) = col ((?Na # ?Ns) ! b) i" if "b \<le> 3" "i < ne" for b i
    using conjunct2[OF hfold[OF Bs]] that unfolding MeshTri_newt_fold by simp
  show "col (MeshTri_newt t s) i = [t ! 0 ! i, s ! 0 ! i, s ! 2 ! i]" if "i < ne" for i
    using c[of 0 i] that by (simp add: col_def)
  show "col (MeshTri_newt t s) (ne + i) = [t ! 1 ! i, s ! 0 ! i, s ! 1 ! i]" if "i < ne" for i
    using c[of 1 i] that by (simp add: col_def)
  show "col (MeshTri_newt t s) (2 * ne + i) = [t ! 2 ! i, s ! 2 ! i, s ! 1 ! i]" if "i < ne" for i
    using c[of 2 i] that by (simp add: col_def)
  show "col (MeshTri_newt t s) (3 * ne + i) = [s ! 0 ! i, s ! 1 ! i, s ! 2 ! i]" if "i < ne" for i
    using c[of 3 i] that by (simp add: col_def)
qed

lemma MeshTri_single_refine_Inr:
  assumes "MeshTri_single_refine m = Inr m'"
  shows "MeshTri_build_mappings
           \<lparr>mesh_p = hstack (mesh_p m) [midpoints (mesh_p m ! 0) (mesh_facets m),
                                          midpoints (mesh_p m ! 1) (mesh_facets m)],
            mesh_t = MeshTri_newt (mesh_t m)
                       (map (map (\<lambda>i. i + ncols (mesh_p m))) (mesh_t2f m))\<rparr> = Inr m'"
  using assms unfolding MeshTri_single_refine_def Let_def by (simp split: if_splits)

lemma MeshTri_init_Inr:
  assumes "MeshTri_init (Some p) (Some t) v im = Inr m"
  shows "MeshTri_build_mappings \<lparr>mesh_p = p, mesh_t = t\<rparr> = Inr m"
  using assms unfolding MeshTri_init_def by (simp split: if_splits sum.splits)

lemma MeshTri_init_default_Inr:
  assumes "MeshTri_init None None v im = Inr m"
  shows "\<exists>p t ne. is_array 3 ne t \<and> MeshTri_build_mappings \<lparr>mesh_p = p, mesh_t = t\<rparr> = Inr m"
proof (cases "im = Some ''symmetric''")
  case True
  have "is_array 3 4 (cols [[0, 1, 4], [1, 2, 4], [2, 3, 4], [0, 3, 4::nat]])" by code_simp
  then show ?thesis
    using assms True unfolding MeshTri_init_def by (auto split: if_splits sum.splits)
next
  case False
  have "is_array 3 2 (cols [[0, 1, 2], [1, 3, 2::nat]])" by code_simp
  then show ?thesis
    using assms False unfolding MeshTri_init_def by (auto split: if_splits sum.splits)
qed

lemma MeshTri_built_inv:
  assumes t: "is_array 3 ne t" and b: "MeshTri_build_mappings \<lparr>mesh_p = p, mesh_t = t\<rparr> = Inr m"
  shows "is_array 3 ne (mesh_t m)" and "is_array 3 ne (mesh_t2f m)"
    and "mesh_t m = np_sort_axis0 t"
    and "\<And>j. j < ne \<Longrightarrow> col (mesh_t m) j = sort (col t j)"
proof -
  have "is_array 3 ne (mesh_t \<lparr>mesh_p = p, mesh_t = t\<rparr>)" using t by simp
  from MeshTri_build_props[OF this] b obtain ixb where
    mt: "mesh_t m = np_sort_axis0 t" and l: "length ixb = 3 * ne"
    and t2f: "mesh_t2f m = reshape 3 ne ixb"
    by auto
  show "mesh_t m = np_sort_axis0 t" by (rule mt)
  show "is_array 3 ne (mesh_t m)" unfolding mt using is_array_sort_axis0[OF t] by simp
  show "is_array 3 ne (mesh_t2f m)" unfolding t2f using is_array_reshape[OF l] .
  show "col (mesh_t m) j = sort (col t j)" if "j < ne" for j
    unfolding mt using col_sort_axis0[OF t _ that] by simp
qed

lemma tri_reachable_inv:
  assumes "tri_reachable m"
  shows "\<exists>ne. is_array 3 ne (mesh_t m) \<and> is_array 3 ne (mesh_t2f m) \<and>
              (\<forall>j < ne. sorted (col (mesh_t m) j))"
  using assms
proof (induction rule: tri_reachable.induct)
  case (constructed ne t p v im m)
  note b = MeshTri_init_Inr[OF constructed(2)]
  note inv = MeshTri_built_inv[OF constructed(1) b]
  show ?case using inv(1,2) inv(4) by (intro exI[of _ ne]) simp
next
  case (default v im m)
  from MeshTri_init_default_Inr[OF default] obtain p t ne where
    t: "is_array 3 ne t" and b: "MeshTri_build_mappings \<lparr>mesh_p = p, mesh_t = t\<rparr> = Inr m"
    by blast
  note inv = MeshTri_built_inv[OF t b]
  show ?case using inv(1,2) inv(4) by (intro exI[of _ ne]) simp
next
  case (refined m m')
  then obtain ne where a: "is_array 3 ne (mesh_t m)" "is_array 3 ne (mesh_t2f m)" by blast
  let ?s = "map (map (\<lambda>i. i + ncols (mesh_p m))) (mesh_t2f m)"
  have nt: "is_array 3 (4 * ne) (MeshTri_newt (mesh_t m) ?s)"
    using MeshTri_newt_props(1)[OF a(1) is_array_shift[OF a(2)]] .
  note b = MeshTri_single_refine_Inr[OF refined(2)]
  note inv = MeshTri_built_inv[OF nt b]
  show ?case using inv(1,2) inv(4) by (intro exI[of _ "4 * ne"]) simp
qed

lemma default_tri_init:
  "MeshTri_init (Some [[0, 1, 0, 1], [0, 0, 1, 1]]) (Some [[0, 1], [1, 3], [2, 2]]) True None =
   Inr \<lparr>mesh_p = [[0, 1, 0, 1], [0, 0, 1, 1]],
        mesh_t = [[0, 1], [1, 2], [2, 3]],
        mesh_facets = [[0, 0, 1, 1, 2], [1, 2, 2, 3, 3]],
        mesh_t2f = [[0, 2], [2, 4], [1, 3]],
        mesh_f2t = [[0, 0, 1, 1, 1], [- 1, - 1, 0, - 1, - 1]]\<rparr>"
  by code_simp

lemma default_tri_refined:
  "MeshTri_single_refine
     \<lparr>mesh_p = [[0, 1, 0, 1], [0, 0, 1, 1]],
      mesh_t = [[0, 1], [1, 2], [2, 3]],
      mesh_facets = [[0, 0, 1, 1, 2], [1, 2, 2, 3, 3]],
      mesh_t2f = [[0, 2], [2, 4], [1, 3]],
      mesh_f2t = [[0, 0, 1, 1, 1], [- 1, - 1, 0, - 1, - 1]]\<rparr> =
   Inr \<lparr>mesh_p = [[0, 1, 0, 1, 1 / 2, 0, 1 / 2, 1, 1 / 2],
                  [0, 0, 1, 1, 0, 1 / 2, 1 / 2, 1 / 2, 1]],
        mesh_t = [[0, 1, 1, 2, 2, 3, 4, 6], [4, 6, 4, 6, 5, 7, 5, 7], [5, 7, 6, 8, 6, 8, 6, 8]],
        mesh_facets = [[0, 0, 1, 1, 1, 2, 2, 2, 3, 3, 4, 4, 5, 6, 6, 7],
                       [4, 5, 4, 6, 7, 5, 6, 8, 7, 8, 5, 6, 6, 7, 8, 8]],
        mesh_t2f = [[0, 3, 2, 6, 5, 8, 10, 13], [10, 13, 11, 14, 12, 15, 12, 15],
                    [1, 4, 3, 7, 6, 9, 11, 14]],
        mesh_f2t = [[0, 0, 2, 1, 1, 4, 3, 3, 5, 5, 6, 2, 4, 7, 3, 5],
                    [- 1, - 1, - 1, 2, - 1, - 1, 4, - 1, - 1, - 1, 0, 6, 6, 1, 7, 7]]\<rparr>"
  by code_simp

lemma tri_slots_lt: "s < 3 \<Longrightarrow> fst (tri_slots ! s) < 3 \<and> snd (tri_slots ! s) < 3"
proof -
  assume "s < 3"
  then consider "s = 0" | "s = 1" | "s = 2" by linarith
  then show ?thesis by cases (simp_all add: tri_slots_def)
qed

lemma sort2: "a \<le> b \<Longrightarrow> sort [a, b] = [a, (b::'a::linorder)]"
  by simp

lemma sorted3_nth:
  assumes "sorted xs" "length xs = 3"
  shows "xs ! 0 \<le> xs ! 1" and "xs ! 1 \<le> xs ! 2" and "xs ! 0 \<le> xs ! 2"
  using assms by (simp_all add: sorted_iff_nth_mono)

lemma midpoints_nth:
  assumes "length (e ! 0) = nf" "length (e ! 1) = nf" "f < nf"
  shows "length (midpoints r e) = nf"
    and "midpoints r e ! f = 0.5 * (r ! (e ! 0 ! f) + r ! (e ! 1 ! f))"
  using assms by (simp_all add: midpoints_def fancy_def)

lemma length_midpoints:
  assumes "length (e ! 0) = nf" "length (e ! 1) = nf"
  shows "length (midpoints r e) = nf"
  using assms by (simp add: midpoints_def fancy_def)

text \<open>What the tables of a built triangular mesh say about element \<open>i\<close> and facet \<open>f\<close>.\<close>

lemma MeshTri_built_facets:
  assumes t: "is_array 3 ne t" and b: "MeshTri_build_mappings \<lparr>mesh_p = p, mesh_t = t\<rparr> = Inr m"
  shows "mesh_p m = p"
    and "is_array 2 (ncols (mesh_facets m)) (mesh_facets m)"
    and "distinct (cols (mesh_facets m))"
    and "\<And>s i. s < 3 \<Longrightarrow> i < ne \<Longrightarrow> mesh_t2f m ! s ! i < ncols (mesh_facets m) \<and>
           col (mesh_facets m) (mesh_t2f m ! s ! i) =
             sort [mesh_t m ! fst (tri_slots ! s) ! i, mesh_t m ! snd (tri_slots ! s) ! i]"
    and "\<And>f. f < ncols (mesh_facets m) \<Longrightarrow> \<exists>s i. s < 3 \<and> i < ne \<and> mesh_t2f m ! s ! i = f"
proof -
  have "is_array 3 ne (mesh_t \<lparr>mesh_p = p, mesh_t = t\<rparr>)" using t by simp
  from MeshTri_build_props[OF this] b obtain ixb where
    mp: "mesh_p m = p" and fa: "is_array 2 (ncols (mesh_facets m)) (mesh_facets m)"
    and l: "length ixb = 3 * ne" and r: "set ixb = {0..<ncols (mesh_facets m)}"
    and t2f: "mesh_t2f m = reshape 3 ne ixb"
    and d: "distinct (cols (mesh_facets m))"
    and key: "\<forall>s e. s < 3 \<longrightarrow> e < ne \<longrightarrow>
        col (mesh_facets m) (ixb ! (s * ne + e))
          = sort [mesh_t m ! fst (tri_slots ! s) ! e, mesh_t m ! snd (tri_slots ! s) ! e]"
    by auto
  show "mesh_p m = p" by (rule mp)
  show "is_array 2 (ncols (mesh_facets m)) (mesh_facets m)" by (rule fa)
  show "distinct (cols (mesh_facets m))" by (rule d)
  show "mesh_t2f m ! s ! i < ncols (mesh_facets m) \<and>
           col (mesh_facets m) (mesh_t2f m ! s ! i) =
             sort [mesh_t m ! fst (tri_slots ! s) ! i, mesh_t m ! snd (tri_slots ! s) ! i]"
    if s: "s < 3" and i: "i < ne" for s i
  proof -
    have e: "mesh_t2f m ! s ! i = ixb ! (s * ne + i)" unfolding t2f by (rule reshape_nth[OF l s i])
    have "s * ne + i < length ixb" using pos_bound[OF s i] l by simp
    then have "ixb ! (s * ne + i) \<in> set ixb" by (rule nth_mem)
    then have "ixb ! (s * ne + i) < ncols (mesh_facets m)" unfolding r by simp
    then show ?thesis unfolding e using key s i by blast
  qed
  show "\<exists>s i. s < 3 \<and> i < ne \<and> mesh_t2f m ! s ! i = f" if "f < ncols (mesh_facets m)" for f
  proof -
    have "f \<in> set ixb" unfolding r using that by simp
    then obtain pos where pos: "pos < 3 * ne" "ixb ! pos = f"
      unfolding in_set_conv_nth l by blast
    note dc = pos_decomp[OF pos(1)]
    have "mesh_t2f m ! (pos div ne) ! (pos mod ne) = ixb ! (pos div ne * ne + pos mod ne)"
      unfolding t2f by (rule reshape_nth[OF l dc(1) dc(2)])
    then have "mesh_t2f m ! (pos div ne) ! (pos mod ne) = f" unfolding dc(3) pos(2) .
    then show ?thesis using dc(1,2) by blast
  qed
qed

lemma MeshTri_built_corners:
  assumes t: "is_array 3 ne t" and b: "MeshTri_build_mappings \<lparr>mesh_p = p, mesh_t = t\<rparr> = Inr m"
    and i: "i < ne"
  shows "mesh_t m ! 0 ! i \<le> mesh_t m ! 1 ! i" and "mesh_t m ! 1 ! i \<le> mesh_t m ! 2 ! i"
    and "mesh_t m ! 0 ! i \<le> mesh_t m ! 2 ! i"
    and "\<And>a. a < 3 \<Longrightarrow> mesh_t m ! a ! i \<in> set (col t i)"
    and "distinct (col t i) \<Longrightarrow> mesh_t m ! 0 ! i < mesh_t m ! 1 ! i \<and> mesh_t m ! 1 ! i < mesh_t m ! 2 ! i"
proof -
  note inv = MeshTri_built_inv[OF t b]
  have c: "col (mesh_t m) i = sort (col t i)" by (rule inv(4)[OF i])
  have l3: "length (mesh_t m) = 3" using inv(1) by (simp add: is_array_def)
  have n: "col (mesh_t m) i ! a = mesh_t m ! a ! i" if "a < 3" for a
    using that l3 by (simp add: nth_col)
  have s: "sorted (col (mesh_t m) i)" unfolding c by simp
  have len: "length (col (mesh_t m) i) = 3" using l3 by (simp add: length_col)
  from sorted3_nth[OF s len]
  show le: "mesh_t m ! 0 ! i \<le> mesh_t m ! 1 ! i" "mesh_t m ! 1 ! i \<le> mesh_t m ! 2 ! i"
    "mesh_t m ! 0 ! i \<le> mesh_t m ! 2 ! i"
    using n by simp_all
  show mem: "mesh_t m ! a ! i \<in> set (col t i)" if "a < 3" for a
  proof -
    have "col (mesh_t m) i ! a \<in> set (col (mesh_t m) i)" using that len by (intro nth_mem) simp
    then show ?thesis unfolding n[OF that] unfolding c by simp
  qed
  show "mesh_t m ! 0 ! i < mesh_t m ! 1 ! i \<and> mesh_t m ! 1 ! i < mesh_t m ! 2 ! i"
    if "distinct (col t i)"
  proof -
    have d: "distinct (col (mesh_t m) i)" unfolding c using that by simp
    have "col (mesh_t m) i ! 0 \<noteq> col (mesh_t m) i ! 1" "col (mesh_t m) i ! 1 \<noteq> col (mesh_t m) i ! 2"
      using d len by (simp_all add: nth_eq_iff_index_eq)
    then show ?thesis using le n by simp
  qed
qed

lemma MeshTri_built_facet_entries:
  assumes t: "is_array 3 ne t" and b: "MeshTri_build_mappings \<lparr>mesh_p = p, mesh_t = t\<rparr> = Inr m"
    and V: "indices_below V t" and f: "f < ncols (mesh_facets m)"
  shows "mesh_facets m ! 0 ! f < V" and "mesh_facets m ! 1 ! f < V"
proof -
  note fc = MeshTri_built_facets[OF t b]
  from fc(5)[OF f] obtain s i where s: "s < 3" and i: "i < ne" and e: "mesh_t2f m ! s ! i = f"
    by blast
  let ?a = "fst (tri_slots ! s)" and ?b = "snd (tri_slots ! s)"
  have c: "col (mesh_facets m) f = sort [mesh_t m ! ?a ! i, mesh_t m ! ?b ! i]"
    using fc(4)[OF s i] e by simp
  have ab: "?a < 3" "?b < 3" using tri_slots_lt[OF s] by simp_all
  have below: "\<forall>x \<in> set (col t i). x < V" by (rule indices_below_col[OF V t i])
  have "mesh_t m ! ?a ! i < V" "mesh_t m ! ?b ! i < V"
    using MeshTri_built_corners(4)[OF t b i] ab below by blast+
  then have all: "\<forall>x \<in> set (col (mesh_facets m) f). x < V" unfolding c by simp
  have l2: "length (mesh_facets m) = 2" using fc(2) by (simp add: is_array_def)
  have "col (mesh_facets m) f ! 0 \<in> set (col (mesh_facets m) f)"
    "col (mesh_facets m) f ! 1 \<in> set (col (mesh_facets m) f)"
    using l2 by (simp_all add: length_col)
  then show "mesh_facets m ! 0 ! f < V" "mesh_facets m ! 1 ! f < V"
    using all l2 by (simp_all add: nth_col)
qed

lemma tri_newp_props:
  assumes p: "is_array 2 V p" and e: "is_array 2 nf e"
  shows "is_array 2 (V + nf) (hstack p [midpoints (p ! 0) e, midpoints (p ! 1) e])"
    and "\<And>j. j < V \<Longrightarrow> col (hstack p [midpoints (p ! 0) e, midpoints (p ! 1) e]) j = col p j"
    and "\<And>f. f < nf \<Longrightarrow> col (hstack p [midpoints (p ! 0) e, midpoints (p ! 1) e]) (V + f) =
           [0.5 * (p ! 0 ! (e ! 0 ! f) + p ! 0 ! (e ! 1 ! f)),
            0.5 * (p ! 1 ! (e ! 0 ! f) + p ! 1 ! (e ! 1 ! f))]"
proof -
  let ?N = "[midpoints (p ! 0) e, midpoints (p ! 1) e]"
  have le: "length (e ! 0) = nf" "length (e ! 1) = nf" using e by (simp_all add: is_array_nth)
  have N: "is_array 2 nf ?N" using length_midpoints[OF le] by (simp add: is_array_def)
  show "is_array 2 (V + nf) (hstack p ?N)" by (rule is_array_hstack[OF p N])
  note c = col_hstack[OF p N]
  show "col (hstack p ?N) j = col p j" if "j < V" for j using c that by simp
  show "col (hstack p ?N) (V + f) =
           [0.5 * (p ! 0 ! (e ! 0 ! f) + p ! 0 ! (e ! 1 ! f)),
            0.5 * (p ! 1 ! (e ! 0 ! f) + p ! 1 ! (e ! 1 ! f))]" if "f < nf" for f
  proof -
    have "col (hstack p ?N) (V + f) = col ?N f" using c[of "V + f"] by simp
    also have "\<dots> = [midpoints (p ! 0) e ! f, midpoints (p ! 1) e ! f]" by (simp add: col_def)
    finally show ?thesis using midpoints_nth(2)[OF le that] by simp
  qed
qed

lemma MeshTri_single_refine_eq:
  assumes p: "is_array 2 V p" and t: "is_array 3 Ne t" and V: "indices_below V t"
    and b: "MeshTri_build_mappings \<lparr>mesh_p = p, mesh_t = t\<rparr> = Inr m"
  shows "MeshTri_single_refine m =
         MeshTri_build_mappings
           \<lparr>mesh_p = hstack p [midpoints (p ! 0) (mesh_facets m), midpoints (p ! 1) (mesh_facets m)],
            mesh_t = MeshTri_newt (mesh_t m) (map (map (\<lambda>i. i + V)) (mesh_t2f m))\<rparr>"
proof -
  note fc = MeshTri_built_facets[OF t b]
  note inv = MeshTri_built_inv[OF t b]
  let ?e = "mesh_facets m"
  have sz: "ncols (mesh_p m) = V" unfolding fc(1) using ncols_array[OF p] by simp
  have lp: "length (mesh_p m) = 2" unfolding fc(1) using p by (simp add: is_array_def)
  have le: "length ?e = 2" using fc(2) by (simp add: is_array_def)
  have lt: "length (mesh_t m) = 3" using inv(1) by (simp add: is_array_def)
  have ls: "length (mesh_t2f m) = 3" using inv(2) by (simp add: is_array_def)
  have ent: "\<forall>i \<in> set (?e ! 0) \<union> set (?e ! 1). i < V"
  proof
    fix x assume "x \<in> set (?e ! 0) \<union> set (?e ! 1)"
    then consider "x \<in> set (?e ! 0)" | "x \<in> set (?e ! 1)" by blast
    then show "x < V"
    proof cases
      case 1
      then obtain f where "f < length (?e ! 0)" "x = ?e ! 0 ! f" by (auto simp: in_set_conv_nth)
      moreover have "length (?e ! 0) = ncols ?e" using fc(2) by (simp add: is_array_nth)
      ultimately show ?thesis using MeshTri_built_facet_entries(1)[OF t b V] by simp
    next
      case 2
      then obtain f where "f < length (?e ! 1)" "x = ?e ! 1 ! f" by (auto simp: in_set_conv_nth)
      moreover have "length (?e ! 1) = ncols ?e" using fc(2) by (simp add: is_array_nth)
      ultimately show ?thesis using MeshTri_built_facet_entries(2)[OF t b V] by simp
    qed
  qed
  show ?thesis
    unfolding MeshTri_single_refine_def Let_def sz using lp le lt ls ent by (simp add: fc(1))
qed

section \<open>Facts about the refinement of a tetrahedral mesh\<close>

lemma zip_nth_map: "length r = n \<Longrightarrow> length c = n \<Longrightarrow> zip r c = map (\<lambda>i. (r ! i, c ! i)) [0..<n]"
  by (rule nth_equalityI) simp_all

lemma msel_nth:
  assumes "length r = n" "length c = n"
  shows "msel r c = map ((!) r) (filter ((!) c) [0..<n])"
  unfolding msel_def zip_nth_map[OF assms] by (simp add: filter_map comp_def)

lemma cols4_map:
  "cols [map f0 L, map f1 L, map f2 L, map f3 L] = map (\<lambda>i. [f0 i, f1 i, f2 i, f3 i]) L"
  by (rule nth_equalityI) (simp_all add: cols_def ncols_def col_def)

lemma is_array4_map: "is_array 4 (length L) [map f0 L, map f1 L, map f2 L, map f3 L]"
  by (simp add: is_array_def)

lemma msel_block:
  assumes "length r0 = n" "length r1 = n" "length r2 = n" "length r3 = n" "length c = n"
  shows "\<exists>w. is_array 4 w [msel r0 c, msel r1 c, msel r2 c, msel r3 c]"
    and "cols [msel r0 c, msel r1 c, msel r2 c, msel r3 c]
         = map (\<lambda>i. [r0 ! i, r1 ! i, r2 ! i, r3 ! i]) (filter ((!) c) [0..<n])"
  unfolding msel_nth[OF assms(1) assms(5)] msel_nth[OF assms(2) assms(5)]
    msel_nth[OF assms(3) assms(5)] msel_nth[OF assms(4) assms(5)]
  using is_array4_map cols4_map by blast+

lemma hfold_cols:
  assumes "is_array r n0 E0" and "\<forall>B \<in> set Bs. \<exists>n. is_array r n B" and "0 < r"
  shows "\<exists>n. is_array r n (fold (\<lambda>B E. hstack E B) Bs E0) \<and>
             cols (fold (\<lambda>B E. hstack E B) Bs E0) = cols E0 @ concat (map cols Bs)"
  using assms(2)
proof (induction Bs rule: rev_induct)
  case Nil
  then show ?case using assms(1) by auto
next
  case (snoc B Bs)
  then obtain n where E: "is_array r n (fold (\<lambda>B E. hstack E B) Bs E0)"
    and c: "cols (fold (\<lambda>B E. hstack E B) Bs E0) = cols E0 @ concat (map cols Bs)" by auto
  from snoc.prems obtain w where B: "is_array r w B" by auto
  have "is_array r (n + w) (hstack (fold (\<lambda>B E. hstack E B) Bs E0) B)"
    by (rule is_array_hstack[OF E B])
  moreover have "cols (hstack (fold (\<lambda>B E. hstack E B) Bs E0) B)
      = cols E0 @ concat (map cols (Bs @ [B]))"
    unfolding cols_hstack[OF E B assms(3)] c by simp
  ultimately show ?case by auto
qed

lemma central_mset:
  assumes "\<forall>i \<in> set L. (c1 i \<and> \<not> c2 i \<and> \<not> c3 i) \<or> (\<not> c1 i \<and> c2 i \<and> \<not> c3 i) \<or>
                        (\<not> c1 i \<and> \<not> c2 i \<and> c3 i)"
  shows "mset (map a1 (filter c1 L) @ map a2 (filter c1 L) @ map a3 (filter c1 L)
               @ map a4 (filter c1 L) @ map b1 (filter c2 L) @ map b2 (filter c2 L)
               @ map b3 (filter c2 L) @ map b4 (filter c2 L) @ map g1 (filter c3 L)
               @ map g2 (filter c3 L) @ map g3 (filter c3 L) @ map g4 (filter c3 L))
       = mset (concat (map (\<lambda>i. if c1 i then [a1 i, a2 i, a3 i, a4 i]
                                 else if c2 i then [b1 i, b2 i, b3 i, b4 i]
                                 else [g1 i, g2 i, g3 i, g4 i]) L))"
  using assms
proof (induction L)
  case Nil
  then show ?case by simp
next
  case (Cons i L)
  then have IH: "mset (map a1 (filter c1 L) @ map a2 (filter c1 L) @ map a3 (filter c1 L)
               @ map a4 (filter c1 L) @ map b1 (filter c2 L) @ map b2 (filter c2 L)
               @ map b3 (filter c2 L) @ map b4 (filter c2 L) @ map g1 (filter c3 L)
               @ map g2 (filter c3 L) @ map g3 (filter c3 L) @ map g4 (filter c3 L))
       = mset (concat (map (\<lambda>i. if c1 i then [a1 i, a2 i, a3 i, a4 i]
                                 else if c2 i then [b1 i, b2 i, b3 i, b4 i]
                                 else [g1 i, g2 i, g3 i, g4 i]) L))" by simp
  from Cons.prems consider "c1 i \<and> \<not> c2 i \<and> \<not> c3 i" | "\<not> c1 i \<and> c2 i \<and> \<not> c3 i"
    | "\<not> c1 i \<and> \<not> c2 i \<and> c3 i" by auto
  then show ?case
  proof cases
    case 1
    then show ?thesis using IH by simp
  next
    case 2
    then show ?thesis using IH by simp
  next
    case 3
    then show ?thesis using IH by simp
  qed
qed

lemma tet_choice_cases:
  "(tet_choice a b c = Diag_III_V) = (c < a \<and> c < b)"
  "(tet_choice a b c = Diag_II_IV) = (\<not> c < a \<and> a < b)"
  "(tet_choice a b c = Diag_I_VI) = (\<not> c < b \<and> \<not> a < b)"
  unfolding tet_choice_def by auto

lemma tet_edge_slots_lt: "s < 6 \<Longrightarrow> fst (tet_edge_slots ! s) < 4 \<and> snd (tet_edge_slots ! s) < 4"
proof -
  assume "s < 6"
  then consider "s = 0" | "s = 1" | "s = 2" | "s = 3" | "s = 4" | "s = 5" by linarith
  then show ?thesis by cases (simp_all add: tet_edge_slots_def)
qed

lemma MeshTet_built:
  assumes t: "is_array 4 ne t" and b: "MeshTet_build_mappings \<lparr>mesh_p = p, mesh_t = t\<rparr> = Inr m"
  shows "mesh_p m = p" and "mesh_t m = t"
    and "is_array 2 (ncols (mesh_edges m)) (mesh_edges m)"
    and "is_array 6 ne (mesh_t2e m)"
    and "distinct (cols (mesh_edges m))"
    and "\<And>s i. s < 6 \<Longrightarrow> i < ne \<Longrightarrow> mesh_t2e m ! s ! i < ncols (mesh_edges m) \<and>
           col (mesh_edges m) (mesh_t2e m ! s ! i) =
             sort [t ! fst (tet_edge_slots ! s) ! i, t ! snd (tet_edge_slots ! s) ! i]"
    and "\<And>g. g < ncols (mesh_edges m) \<Longrightarrow> \<exists>s i. s < 6 \<and> i < ne \<and> mesh_t2e m ! s ! i = g"
proof -
  have "is_array 4 ne (mesh_t \<lparr>mesh_p = p, mesh_t = t\<rparr>)" using t by simp
  from MeshTet_build_props[OF this] b obtain ixe where
    mp: "mesh_p m = p" and mt: "mesh_t m = t"
    and ea: "is_array 2 (ncols (mesh_edges m)) (mesh_edges m)"
    and l: "length ixe = 6 * ne" and r: "set ixe = {0..<ncols (mesh_edges m)}"
    and t2e: "mesh_t2e m = reshape 6 ne ixe"
    and d: "distinct (cols (mesh_edges m))"
    and key: "\<forall>s e. s < 6 \<longrightarrow> e < ne \<longrightarrow>
        col (mesh_edges m) (ixe ! (s * ne + e))
          = sort [mesh_t m ! fst (tet_edge_slots ! s) ! e, mesh_t m ! snd (tet_edge_slots ! s) ! e]"
    by auto
  show "mesh_p m = p" by (rule mp)
  show "mesh_t m = t" by (rule mt)
  show "is_array 2 (ncols (mesh_edges m)) (mesh_edges m)" by (rule ea)
  show "is_array 6 ne (mesh_t2e m)" unfolding t2e by (rule is_array_reshape[OF l])
  show "distinct (cols (mesh_edges m))" by (rule d)
  show "mesh_t2e m ! s ! i < ncols (mesh_edges m) \<and>
           col (mesh_edges m) (mesh_t2e m ! s ! i) =
             sort [t ! fst (tet_edge_slots ! s) ! i, t ! snd (tet_edge_slots ! s) ! i]"
    if s: "s < 6" and i: "i < ne" for s i
  proof -
    have e: "mesh_t2e m ! s ! i = ixe ! (s * ne + i)" unfolding t2e by (rule reshape_nth[OF l s i])
    have "s * ne + i < length ixe" using pos_bound[OF s i] l by simp
    then have "ixe ! (s * ne + i) \<in> set ixe" by (rule nth_mem)
    then have "ixe ! (s * ne + i) < ncols (mesh_edges m)" unfolding r by simp
    then show ?thesis unfolding e using key s i unfolding mt by blast
  qed
  show "\<exists>s i. s < 6 \<and> i < ne \<and> mesh_t2e m ! s ! i = g" if "g < ncols (mesh_edges m)" for g
  proof -
    have "g \<in> set ixe" unfolding r using that by simp
    then obtain pos where pos: "pos < 6 * ne" "ixe ! pos = g"
      unfolding in_set_conv_nth l by blast
    note dc = pos_decomp[OF pos(1)]
    have "mesh_t2e m ! (pos div ne) ! (pos mod ne) = ixe ! (pos div ne * ne + pos mod ne)"
      unfolding t2e by (rule reshape_nth[OF l dc(1) dc(2)])
    then have "mesh_t2e m ! (pos div ne) ! (pos mod ne) = g" unfolding dc(3) pos(2) .
    then show ?thesis using dc(1,2) by blast
  qed
qed

lemma MeshTet_built_edge_entries:
  assumes t: "is_array 4 ne t" and b: "MeshTet_build_mappings \<lparr>mesh_p = p, mesh_t = t\<rparr> = Inr m"
    and V: "indices_below V t" and g: "g < ncols (mesh_edges m)"
  shows "mesh_edges m ! 0 ! g < V" and "mesh_edges m ! 1 ! g < V"
proof -
  note bt = MeshTet_built[OF t b]
  from bt(7)[OF g] obtain s i where s: "s < 6" and i: "i < ne" and e: "mesh_t2e m ! s ! i = g"
    by blast
  let ?a = "fst (tet_edge_slots ! s)" and ?b = "snd (tet_edge_slots ! s)"
  have c: "col (mesh_edges m) g = sort [t ! ?a ! i, t ! ?b ! i]"
    using bt(6)[OF s i] e by simp
  have ab: "?a < 4" "?b < 4" using tet_edge_slots_lt[OF s] by simp_all
  have lt: "length t = 4" using t by (simp add: is_array_def)
  have "t ! ?a ! i < V" "t ! ?b ! i < V"
    using indices_below_nth[OF V] ab lt i is_array_nth[OF t] by simp_all
  then have all: "\<forall>x \<in> set (col (mesh_edges m) g). x < V" unfolding c by simp
  have l2: "length (mesh_edges m) = 2" using bt(3) by (simp add: is_array_def)
  have "col (mesh_edges m) g ! 0 \<in> set (col (mesh_edges m) g)"
    "col (mesh_edges m) g ! 1 \<in> set (col (mesh_edges m) g)"
    using l2 by (simp_all add: length_col)
  then show "mesh_edges m ! 0 ! g < V" "mesh_edges m ! 1 ! g < V"
    using all l2 by (simp_all add: nth_col)
qed

lemma tet_newp_props:
  assumes p: "is_array 3 V p" and e: "is_array 2 nE e"
  shows "is_array 3 (V + nE) (MeshTet_newp p e)"
    and "\<And>j. j < V \<Longrightarrow> col (MeshTet_newp p e) j = col p j"
    and "\<And>g. g < nE \<Longrightarrow> col (MeshTet_newp p e) (V + g) =
           [0.5 * (p ! 0 ! (e ! 0 ! g) + p ! 0 ! (e ! 1 ! g)),
            0.5 * (p ! 1 ! (e ! 0 ! g) + p ! 1 ! (e ! 1 ! g)),
            0.5 * (p ! 2 ! (e ! 0 ! g) + p ! 2 ! (e ! 1 ! g))]"
proof -
  let ?N = "[midpoints (p ! 0) e, midpoints (p ! 1) e, midpoints (p ! 2) e]"
  have le: "length (e ! 0) = nE" "length (e ! 1) = nE" using e by (simp_all add: is_array_nth)
  have N: "is_array 3 nE ?N" using length_midpoints[OF le] by (simp add: is_array_def)
  have eq: "MeshTet_newp p e = hstack p ?N" by (simp add: MeshTet_newp_def)
  show "is_array 3 (V + nE) (MeshTet_newp p e)" unfolding eq by (rule is_array_hstack[OF p N])
  note c = col_hstack[OF p N]
  show "col (MeshTet_newp p e) j = col p j" if "j < V" for j unfolding eq using c that by simp
  show "col (MeshTet_newp p e) (V + g) =
           [0.5 * (p ! 0 ! (e ! 0 ! g) + p ! 0 ! (e ! 1 ! g)),
            0.5 * (p ! 1 ! (e ! 0 ! g) + p ! 1 ! (e ! 1 ! g)),
            0.5 * (p ! 2 ! (e ! 0 ! g) + p ! 2 ! (e ! 1 ! g))]" if "g < nE" for g
  proof -
    have "col (hstack p ?N) (V + g) = col ?N g" using c[of "V + g"] by simp
    also have "\<dots> = [midpoints (p ! 0) e ! g, midpoints (p ! 1) e ! g, midpoints (p ! 2) e ! g]"
      by (simp add: col_def)
    finally show ?thesis unfolding eq using midpoints_nth(2)[OF le that] by simp
  qed
qed

lemma MeshTet_corners_fold:
  "MeshTet_corners t s = fold (\<lambda>B E. hstack E B)
     [[t ! 1, s ! 0, s ! 1, s ! 4], [t ! 2, s ! 1, s ! 2, s ! 5], [t ! 3, s ! 3, s ! 4, s ! 5]]
     [t ! 0, s ! 0, s ! 2, s ! 3]"
  by (simp add: MeshTet_corners_def Let_def)

lemma MeshTet_corners_props:
  assumes t: "is_array 4 ne t" and s: "is_array 6 ne s"
  shows "is_array 4 (4 * ne) (MeshTet_corners t s)"
    and "\<And>i. i < ne \<Longrightarrow> col (MeshTet_corners t s) i = [t ! 0 ! i, s ! 0 ! i, s ! 2 ! i, s ! 3 ! i]"
    and "\<And>i. i < ne \<Longrightarrow> col (MeshTet_corners t s) (ne + i) = [t ! 1 ! i, s ! 0 ! i, s ! 1 ! i, s ! 4 ! i]"
    and "\<And>i. i < ne \<Longrightarrow> col (MeshTet_corners t s) (2 * ne + i) = [t ! 2 ! i, s ! 1 ! i, s ! 2 ! i, s ! 5 ! i]"
    and "\<And>i. i < ne \<Longrightarrow> col (MeshTet_corners t s) (3 * ne + i) = [t ! 3 ! i, s ! 3 ! i, s ! 4 ! i, s ! 5 ! i]"
proof -
  let ?Na = "[t ! 0, s ! 0, s ! 2, s ! 3]"
  let ?Ns = "[[t ! 1, s ! 0, s ! 1, s ! 4], [t ! 2, s ! 1, s ! 2, s ! 5], [t ! 3, s ! 3, s ! 4, s ! 5]]"
  have l: "length (t ! 0) = ne" "length (t ! 1) = ne" "length (t ! 2) = ne" "length (t ! 3) = ne"
    "length (s ! 0) = ne" "length (s ! 1) = ne" "length (s ! 2) = ne"
    "length (s ! 3) = ne" "length (s ! 4) = ne" "length (s ! 5) = ne"
    using t s by (simp_all add: is_array_nth)
  have Bs: "\<forall>B \<in> set (?Na # ?Ns). is_array 4 ne B" using l by (simp add: is_array_def)
  have four: "ne + (ne + (ne + ne)) = 4 * ne" by simp
  show "is_array 4 (4 * ne) (MeshTet_corners t s)"
    using conjunct1[OF hfold[OF Bs]] unfolding MeshTet_corners_fold by (simp add: four)
  have c: "col (MeshTet_corners t s) (b * ne + i) = col ((?Na # ?Ns) ! b) i" if "b \<le> 3" "i < ne" for b i
    using conjunct2[OF hfold[OF Bs]] that unfolding MeshTet_corners_fold by simp
  show "col (MeshTet_corners t s) i = [t ! 0 ! i, s ! 0 ! i, s ! 2 ! i, s ! 3 ! i]" if "i < ne" for i
    using c[of 0 i] that by (simp add: col_def)
  show "col (MeshTet_corners t s) (ne + i) = [t ! 1 ! i, s ! 0 ! i, s ! 1 ! i, s ! 4 ! i]" if "i < ne" for i
    using c[of 1 i] that by (simp add: col_def)
  show "col (MeshTet_corners t s) (2 * ne + i) = [t ! 2 ! i, s ! 1 ! i, s ! 2 ! i, s ! 5 ! i]" if "i < ne" for i
    using c[of 2 i] that by (simp add: col_def)
  show "col (MeshTet_corners t s) (3 * ne + i) = [t ! 3 ! i, s ! 3 ! i, s ! 4 ! i, s ! 5 ! i]" if "i < ne" for i
    using c[of 3 i] that by (simp add: col_def)
qed

lemma diag2_nth:
  assumes "length a = ne" "length b = ne" "i < ne"
  shows "length (diag2 newp a b) = ne"
    and "diag2 newp a b ! i = planar_dist2 newp (a ! i) (b ! i)"
  using assms by (simp_all add: diag2_def fancy_def planar_dist2_def)

lemma length_diag2:
  assumes "length a = ne" "length b = ne"
  shows "length (diag2 newp a b) = ne"
  using assms by (simp add: diag2_def fancy_def)

lemma MeshTet_masks_props:
  assumes s: "is_array 6 ne s" and cs: "MeshTet_masks newp s = (c1, c2, c3)"
  shows "length c1 = ne" and "length c2 = ne" and "length c3 = ne"
    and "\<And>i. i < ne \<Longrightarrow>
          c1 ! i = (planar_dist2 newp (s ! 2 ! i) (s ! 4 ! i) < planar_dist2 newp (s ! 1 ! i) (s ! 3 ! i) \<and>
                    planar_dist2 newp (s ! 2 ! i) (s ! 4 ! i) < planar_dist2 newp (s ! 0 ! i) (s ! 5 ! i))"
    and "\<And>i. i < ne \<Longrightarrow>
          c2 ! i = (\<not> planar_dist2 newp (s ! 2 ! i) (s ! 4 ! i) < planar_dist2 newp (s ! 1 ! i) (s ! 3 ! i) \<and>
                    planar_dist2 newp (s ! 1 ! i) (s ! 3 ! i) < planar_dist2 newp (s ! 0 ! i) (s ! 5 ! i))"
    and "\<And>i. i < ne \<Longrightarrow>
          c3 ! i = (\<not> planar_dist2 newp (s ! 2 ! i) (s ! 4 ! i) < planar_dist2 newp (s ! 0 ! i) (s ! 5 ! i) \<and>
                    \<not> planar_dist2 newp (s ! 1 ! i) (s ! 3 ! i) < planar_dist2 newp (s ! 0 ! i) (s ! 5 ! i))"
proof -
  have l: "length (s ! 0) = ne" "length (s ! 1) = ne" "length (s ! 2) = ne"
    "length (s ! 3) = ne" "length (s ! 4) = ne" "length (s ! 5) = ne"
    using s by (simp_all add: is_array_nth)
  let ?d1 = "diag2 newp (s ! 2) (s ! 4)" and ?d2 = "diag2 newp (s ! 1) (s ! 3)"
    and ?d3 = "diag2 newp (s ! 0) (s ! 5)"
  have ld: "length ?d1 = ne" "length ?d2 = ne" "length ?d3 = ne"
    using l by (simp_all add: length_diag2)
  have c1: "c1 = map2 (\<and>) (map2 (<) ?d1 ?d2) (map2 (<) ?d1 ?d3)"
    and c2: "c2 = map2 (\<and>) (map Not (map2 (<) ?d1 ?d2)) (map2 (<) ?d2 ?d3)"
    and c3: "c3 = map2 (\<and>) (map Not (map2 (<) ?d1 ?d3)) (map Not (map2 (<) ?d2 ?d3))"
    using cs unfolding MeshTet_masks_def Let_def by simp_all
  show "length c1 = ne" "length c2 = ne" "length c3 = ne" unfolding c1 c2 c3 using ld by simp_all
  fix i assume i: "i < ne"
  have n: "?d1 ! i = planar_dist2 newp (s ! 2 ! i) (s ! 4 ! i)"
    "?d2 ! i = planar_dist2 newp (s ! 1 ! i) (s ! 3 ! i)"
    "?d3 ! i = planar_dist2 newp (s ! 0 ! i) (s ! 5 ! i)"
    using l i by (simp_all add: diag2_nth(2))
  show "c1 ! i = (planar_dist2 newp (s ! 2 ! i) (s ! 4 ! i) < planar_dist2 newp (s ! 1 ! i) (s ! 3 ! i) \<and>
                    planar_dist2 newp (s ! 2 ! i) (s ! 4 ! i) < planar_dist2 newp (s ! 0 ! i) (s ! 5 ! i))"
    unfolding c1 using ld i n by simp
  show "c2 ! i = (\<not> planar_dist2 newp (s ! 2 ! i) (s ! 4 ! i) < planar_dist2 newp (s ! 1 ! i) (s ! 3 ! i) \<and>
                    planar_dist2 newp (s ! 1 ! i) (s ! 3 ! i) < planar_dist2 newp (s ! 0 ! i) (s ! 5 ! i))"
    unfolding c2 using ld i n by simp
  show "c3 ! i = (\<not> planar_dist2 newp (s ! 2 ! i) (s ! 4 ! i) < planar_dist2 newp (s ! 0 ! i) (s ! 5 ! i) \<and>
                    \<not> planar_dist2 newp (s ! 1 ! i) (s ! 3 ! i) < planar_dist2 newp (s ! 0 ! i) (s ! 5 ! i))"
    unfolding c3 using ld i n by simp
qed

lemma MeshTet_middle_fold:
  "MeshTet_middle s (c1, c2, c3) newt = fold (\<lambda>B E. hstack E B)
     [[msel (s ! 2) c1, msel (s ! 4) c1, msel (s ! 0) c1, msel (s ! 1) c1],
      [msel (s ! 2) c1, msel (s ! 4) c1, msel (s ! 0) c1, msel (s ! 3) c1],
      [msel (s ! 2) c1, msel (s ! 4) c1, msel (s ! 1) c1, msel (s ! 5) c1],
      [msel (s ! 2) c1, msel (s ! 4) c1, msel (s ! 3) c1, msel (s ! 5) c1],
      [msel (s ! 1) c2, msel (s ! 3) c2, msel (s ! 0) c2, msel (s ! 4) c2],
      [msel (s ! 1) c2, msel (s ! 3) c2, msel (s ! 4) c2, msel (s ! 5) c2],
      [msel (s ! 1) c2, msel (s ! 3) c2, msel (s ! 5) c2, msel (s ! 2) c2],
      [msel (s ! 1) c2, msel (s ! 3) c2, msel (s ! 2) c2, msel (s ! 0) c2],
      [msel (s ! 0) c3, msel (s ! 5) c3, msel (s ! 1) c3, msel (s ! 4) c3],
      [msel (s ! 0) c3, msel (s ! 5) c3, msel (s ! 4) c3, msel (s ! 3) c3],
      [msel (s ! 0) c3, msel (s ! 5) c3, msel (s ! 3) c3, msel (s ! 2) c3],
      [msel (s ! 0) c3, msel (s ! 5) c3, msel (s ! 2) c3, msel (s ! 1) c3]] newt"
  by (simp add: MeshTet_middle_def Let_def)

lemma MeshTet_middle_cols:
  assumes s: "is_array 6 ne s" and lc: "length c1 = ne" "length c2 = ne" "length c3 = ne"
    and E: "is_array 4 n0 newt"
  shows "\<exists>n. is_array 4 n (MeshTet_middle s (c1, c2, c3) newt) \<and>
             cols (MeshTet_middle s (c1, c2, c3) newt) = cols newt @ middle_cols ne s c1 c2 c3"
proof -
  have l: "length (s ! 0) = ne" "length (s ! 1) = ne" "length (s ! 2) = ne"
    "length (s ! 3) = ne" "length (s ! 4) = ne" "length (s ! 5) = ne"
    using s by (simp_all add: is_array_nth)
  have arr: "\<exists>w. is_array 4 w [msel r0 c, msel r1 c, msel r2 c, msel r3 c]"
    if "length r0 = ne" "length r1 = ne" "length r2 = ne" "length r3 = ne" "length c = ne"
    for r0 r1 r2 r3 :: "nat list" and c
    using msel_block(1)[OF that] .
  have cb: "cols [msel r0 c, msel r1 c, msel r2 c, msel r3 c]
         = map (\<lambda>i. [r0 ! i, r1 ! i, r2 ! i, r3 ! i]) (filter ((!) c) [0..<ne])"
    if "length r0 = ne" "length r1 = ne" "length r2 = ne" "length r3 = ne" "length c = ne"
    for r0 r1 r2 r3 :: "nat list" and c
    using msel_block(2)[OF that] .
  let ?Bs = "[[msel (s ! 2) c1, msel (s ! 4) c1, msel (s ! 0) c1, msel (s ! 1) c1],
      [msel (s ! 2) c1, msel (s ! 4) c1, msel (s ! 0) c1, msel (s ! 3) c1],
      [msel (s ! 2) c1, msel (s ! 4) c1, msel (s ! 1) c1, msel (s ! 5) c1],
      [msel (s ! 2) c1, msel (s ! 4) c1, msel (s ! 3) c1, msel (s ! 5) c1],
      [msel (s ! 1) c2, msel (s ! 3) c2, msel (s ! 0) c2, msel (s ! 4) c2],
      [msel (s ! 1) c2, msel (s ! 3) c2, msel (s ! 4) c2, msel (s ! 5) c2],
      [msel (s ! 1) c2, msel (s ! 3) c2, msel (s ! 5) c2, msel (s ! 2) c2],
      [msel (s ! 1) c2, msel (s ! 3) c2, msel (s ! 2) c2, msel (s ! 0) c2],
      [msel (s ! 0) c3, msel (s ! 5) c3, msel (s ! 1) c3, msel (s ! 4) c3],
      [msel (s ! 0) c3, msel (s ! 5) c3, msel (s ! 4) c3, msel (s ! 3) c3],
      [msel (s ! 0) c3, msel (s ! 5) c3, msel (s ! 3) c3, msel (s ! 2) c3],
      [msel (s ! 0) c3, msel (s ! 5) c3, msel (s ! 2) c3, msel (s ! 1) c3]]"
  have Bs: "\<forall>B \<in> set ?Bs. \<exists>n. is_array 4 n B"
    using arr l lc by simp
  have four: "0 < (4::nat)" by simp
  from hfold_cols[OF E Bs four] obtain n where
    a: "is_array 4 n (fold (\<lambda>B E. hstack E B) ?Bs newt)"
    and c: "cols (fold (\<lambda>B E. hstack E B) ?Bs newt) = cols newt @ concat (map cols ?Bs)"
    by blast
  have "concat (map cols ?Bs) = middle_cols ne s c1 c2 c3"
    unfolding middle_cols_def
    by (simp only: list.map concat.simps append_Nil2
      cb[OF l(3) l(5) l(1) l(2) lc(1)]
      cb[OF l(3) l(5) l(1) l(4) lc(1)]
      cb[OF l(3) l(5) l(2) l(6) lc(1)]
      cb[OF l(3) l(5) l(4) l(6) lc(1)]
      cb[OF l(2) l(4) l(1) l(5) lc(2)]
      cb[OF l(2) l(4) l(5) l(6) lc(2)]
      cb[OF l(2) l(4) l(6) l(3) lc(2)]
      cb[OF l(2) l(4) l(3) l(1) lc(2)]
      cb[OF l(1) l(6) l(2) l(5) lc(3)]
      cb[OF l(1) l(6) l(5) l(4) lc(3)]
      cb[OF l(1) l(6) l(4) l(3) lc(3)]
      cb[OF l(1) l(6) l(3) l(2) lc(3)])
  then show ?thesis using a c unfolding MeshTet_middle_fold by auto
qed

lemma tet_mids_nth: "k < 6 \<Longrightarrow> tet_mids V t2e i ! k = t2e ! k ! i + V"
  by (simp add: tet_mids_def)

lemma tet_element_masks:
  assumes t2e: "is_array 6 ne t2e" and i: "i < ne"
    and cs: "MeshTet_masks newp (map (map (\<lambda>x. x + V)) t2e) = (c1, c2, c3)"
  shows "c1 ! i = (tet_element_choice newp (tet_mids V t2e i) = Diag_III_V)"
    and "c2 ! i = (tet_element_choice newp (tet_mids V t2e i) = Diag_II_IV)"
    and "c3 ! i = (tet_element_choice newp (tet_mids V t2e i) = Diag_I_VI)"
    and "(if c1 ! i then [[s2, s4, s0, s1], [s2, s4, s0, s3], [s2, s4, s1, s5], [s2, s4, s3, s5]]
          else if c2 ! i then [[s1, s3, s0, s4], [s1, s3, s4, s5], [s1, s3, s5, s2], [s1, s3, s2, s0]]
          else [[s0, s5, s1, s4], [s0, s5, s4, s3], [s0, s5, s3, s2], [s0, s5, s2, s1]])
         = (case tet_element_choice newp (tet_mids V t2e i) of
              Diag_III_V \<Rightarrow> [[s2, s4, s0, s1], [s2, s4, s0, s3], [s2, s4, s1, s5], [s2, s4, s3, s5]]
            | Diag_II_IV \<Rightarrow> [[s1, s3, s0, s4], [s1, s3, s4, s5], [s1, s3, s5, s2], [s1, s3, s2, s0]]
            | Diag_I_VI \<Rightarrow> [[s0, s5, s1, s4], [s0, s5, s4, s3], [s0, s5, s3, s2], [s0, s5, s2, s1]])"
    and "(c1 ! i \<and> \<not> c2 ! i \<and> \<not> c3 ! i) \<or> (\<not> c1 ! i \<and> c2 ! i \<and> \<not> c3 ! i) \<or>
         (\<not> c1 ! i \<and> \<not> c2 ! i \<and> c3 ! i)"
proof -
  let ?s = "map (map (\<lambda>x. x + V)) t2e"
  let ?m = "tet_mids V t2e i"
  have s: "is_array 6 ne ?s" by (rule is_array_shift[OF t2e])
  note mp = MeshTet_masks_props[OF s cs]
  have l6: "length t2e = 6" using t2e by (simp add: is_array_def)
  have sh: "?s ! k ! i = ?m ! k" if "k < 6" for k
  proof -
    have "length (t2e ! k) = ne" using t2e that by (simp add: is_array_nth)
    then show ?thesis using that l6 i by (simp add: tet_mids_nth)
  qed
  have dA: "planar_dist2 newp (?s ! 1 ! i) (?s ! 3 ! i) = diag_length2 newp ?m Diag_II_IV"
    by (simp add: sh diag_length2_def diag_ends_def)
  have dB: "planar_dist2 newp (?s ! 0 ! i) (?s ! 5 ! i) = diag_length2 newp ?m Diag_I_VI"
    by (simp add: sh diag_length2_def diag_ends_def)
  have dC: "planar_dist2 newp (?s ! 2 ! i) (?s ! 4 ! i) = diag_length2 newp ?m Diag_III_V"
    by (simp add: sh diag_length2_def diag_ends_def)
  show a1: "c1 ! i = (tet_element_choice newp ?m = Diag_III_V)"
    unfolding mp(4)[OF i] dA dB dC tet_element_choice_def tet_choice_cases by (rule refl)
  show a2: "c2 ! i = (tet_element_choice newp ?m = Diag_II_IV)"
    unfolding mp(5)[OF i] dA dB dC tet_element_choice_def tet_choice_cases by (rule refl)
  show a3: "c3 ! i = (tet_element_choice newp ?m = Diag_I_VI)"
    unfolding mp(6)[OF i] dA dB dC tet_element_choice_def tet_choice_cases by (rule refl)
  show "(if c1 ! i then [[s2, s4, s0, s1], [s2, s4, s0, s3], [s2, s4, s1, s5], [s2, s4, s3, s5]]
          else if c2 ! i then [[s1, s3, s0, s4], [s1, s3, s4, s5], [s1, s3, s5, s2], [s1, s3, s2, s0]]
          else [[s0, s5, s1, s4], [s0, s5, s4, s3], [s0, s5, s3, s2], [s0, s5, s2, s1]])
         = (case tet_element_choice newp ?m of
              Diag_III_V \<Rightarrow> [[s2, s4, s0, s1], [s2, s4, s0, s3], [s2, s4, s1, s5], [s2, s4, s3, s5]]
            | Diag_II_IV \<Rightarrow> [[s1, s3, s0, s4], [s1, s3, s4, s5], [s1, s3, s5, s2], [s1, s3, s2, s0]]
            | Diag_I_VI \<Rightarrow> [[s0, s5, s1, s4], [s0, s5, s4, s3], [s0, s5, s3, s2], [s0, s5, s2, s1]])"
    unfolding a1 a2 by (cases "tet_element_choice newp ?m") simp_all
  show "(c1 ! i \<and> \<not> c2 ! i \<and> \<not> c3 ! i) \<or> (\<not> c1 ! i \<and> c2 ! i \<and> \<not> c3 ! i) \<or>
         (\<not> c1 ! i \<and> \<not> c2 ! i \<and> c3 ! i)"
    unfolding a1 a2 a3 by (cases "tet_element_choice newp ?m") simp_all
qed

lemma middle_cols_mset:
  assumes t2e: "is_array 6 ne t2e"
    and cs: "MeshTet_masks newp (map (map (\<lambda>x. x + V)) t2e) = (c1, c2, c3)"
  shows "mset (middle_cols ne (map (map (\<lambda>x. x + V)) t2e) c1 c2 c3)
       = mset (concat (map (\<lambda>i. tet_central (tet_element_choice newp (tet_mids V t2e i))
                                              (tet_mids V t2e i)) [0..<ne]))"
proof -
  let ?s = "map (map (\<lambda>x. x + V)) t2e"
  have ex: "\<forall>i \<in> set [0..<ne]. (c1 ! i \<and> \<not> c2 ! i \<and> \<not> c3 ! i) \<or> (\<not> c1 ! i \<and> c2 ! i \<and> \<not> c3 ! i) \<or>
         (\<not> c1 ! i \<and> \<not> c2 ! i \<and> c3 ! i)"
    using tet_element_masks(5)[OF t2e _ cs] by simp
  have l6: "length t2e = 6" using t2e by (simp add: is_array_def)
  have sh: "?s ! k ! i = tet_mids V t2e i ! k" if "k < 6" "i < ne" for k i
  proof -
    have "length (t2e ! k) = ne" using t2e that by (simp add: is_array_nth)
    then show ?thesis using that l6 by (simp add: tet_mids_nth)
  qed
  have "mset (middle_cols ne ?s c1 c2 c3)
      = mset (concat (map (\<lambda>i.
          if c1 ! i then [[?s ! 2 ! i, ?s ! 4 ! i, ?s ! 0 ! i, ?s ! 1 ! i], [?s ! 2 ! i, ?s ! 4 ! i, ?s ! 0 ! i, ?s ! 3 ! i],
                          [?s ! 2 ! i, ?s ! 4 ! i, ?s ! 1 ! i, ?s ! 5 ! i], [?s ! 2 ! i, ?s ! 4 ! i, ?s ! 3 ! i, ?s ! 5 ! i]]
          else if c2 ! i then [[?s ! 1 ! i, ?s ! 3 ! i, ?s ! 0 ! i, ?s ! 4 ! i], [?s ! 1 ! i, ?s ! 3 ! i, ?s ! 4 ! i, ?s ! 5 ! i],
                          [?s ! 1 ! i, ?s ! 3 ! i, ?s ! 5 ! i, ?s ! 2 ! i], [?s ! 1 ! i, ?s ! 3 ! i, ?s ! 2 ! i, ?s ! 0 ! i]]
          else [[?s ! 0 ! i, ?s ! 5 ! i, ?s ! 1 ! i, ?s ! 4 ! i], [?s ! 0 ! i, ?s ! 5 ! i, ?s ! 4 ! i, ?s ! 3 ! i],
                [?s ! 0 ! i, ?s ! 5 ! i, ?s ! 3 ! i, ?s ! 2 ! i], [?s ! 0 ! i, ?s ! 5 ! i, ?s ! 2 ! i, ?s ! 1 ! i]])
          [0..<ne]))"
    unfolding middle_cols_def by (rule central_mset[OF ex])
  also have "\<dots> = mset (concat (map (\<lambda>i. tet_central (tet_element_choice newp (tet_mids V t2e i))
                                              (tet_mids V t2e i)) [0..<ne]))"
  proof -
    have "(\<lambda>i.
          if c1 ! i then [[?s ! 2 ! i, ?s ! 4 ! i, ?s ! 0 ! i, ?s ! 1 ! i], [?s ! 2 ! i, ?s ! 4 ! i, ?s ! 0 ! i, ?s ! 3 ! i],
                          [?s ! 2 ! i, ?s ! 4 ! i, ?s ! 1 ! i, ?s ! 5 ! i], [?s ! 2 ! i, ?s ! 4 ! i, ?s ! 3 ! i, ?s ! 5 ! i]]
          else if c2 ! i then [[?s ! 1 ! i, ?s ! 3 ! i, ?s ! 0 ! i, ?s ! 4 ! i], [?s ! 1 ! i, ?s ! 3 ! i, ?s ! 4 ! i, ?s ! 5 ! i],
                          [?s ! 1 ! i, ?s ! 3 ! i, ?s ! 5 ! i, ?s ! 2 ! i], [?s ! 1 ! i, ?s ! 3 ! i, ?s ! 2 ! i, ?s ! 0 ! i]]
          else [[?s ! 0 ! i, ?s ! 5 ! i, ?s ! 1 ! i, ?s ! 4 ! i], [?s ! 0 ! i, ?s ! 5 ! i, ?s ! 4 ! i, ?s ! 3 ! i],
                [?s ! 0 ! i, ?s ! 5 ! i, ?s ! 3 ! i, ?s ! 2 ! i], [?s ! 0 ! i, ?s ! 5 ! i, ?s ! 2 ! i, ?s ! 1 ! i]]) i
        = tet_central (tet_element_choice newp (tet_mids V t2e i)) (tet_mids V t2e i)"
      if i: "i < ne" for i
    proof -
      have e: "?s ! 0 ! i = tet_mids V t2e i ! 0" "?s ! 1 ! i = tet_mids V t2e i ! 1"
        "?s ! 2 ! i = tet_mids V t2e i ! 2" "?s ! 3 ! i = tet_mids V t2e i ! 3"
        "?s ! 4 ! i = tet_mids V t2e i ! 4" "?s ! 5 ! i = tet_mids V t2e i ! 5"
        by (rule sh[OF _ i], simp)+
      show ?thesis
        unfolding tet_element_masks(4)[OF t2e i cs] tet_central_def e by (rule refl)
    qed
    then show ?thesis by (intro arg_cong[where f = mset] arg_cong[where f = concat] map_cong) simp_all
  qed
  finally show ?thesis .
qed

lemma length_tet_central: "length (tet_central d mids) = 4"
  by (cases d) (simp_all add: tet_central_def)

lemma length_concat_central:
  "length (concat (map (\<lambda>i. tet_central (f i) (g i)) L)) = 4 * length L"
  by (induction L) (simp_all add: length_tet_central)

lemma MeshTet_refine_props:
  assumes p: "is_array 3 V p" and t: "is_array 4 Ne t" and V: "indices_below V t"
    and b: "MeshTet_build_mappings \<lparr>mesh_p = p, mesh_t = t\<rparr> = Inr m"
  shows "\<exists>m' c1 c2 c3.
      MeshTet_single_refine m = Inr m' \<and>
      mesh_p m' = MeshTet_newp p (mesh_edges m) \<and>
      MeshTet_masks (mesh_p m') (map (map (\<lambda>x. x + V)) (mesh_t2e m)) = (c1, c2, c3) \<and>
      is_array 4 (8 * Ne) (mesh_t m') \<and>
      cols (mesh_t m') = cols (MeshTet_corners t (map (map (\<lambda>x. x + V)) (mesh_t2e m)))
                         @ middle_cols Ne (map (map (\<lambda>x. x + V)) (mesh_t2e m)) c1 c2 c3"
proof -
  note bt = MeshTet_built[OF t b]
  let ?e = "mesh_edges m"
  let ?nE = "ncols (mesh_edges m)"
  let ?s = "map (map (\<lambda>x. x + V)) (mesh_t2e m)"
  let ?newp = "MeshTet_newp p ?e"
  have sz: "ncols (mesh_p m) = V" unfolding bt(1) using ncols_array[OF p] by simp
  have lp: "length (mesh_p m) = 3" unfolding bt(1) using p by (simp add: is_array_def)
  have le: "length ?e = 2" using bt(3) by (simp add: is_array_def)
  have lt: "length (mesh_t m) = 4" unfolding bt(2) using t by (simp add: is_array_def)
  have l6: "length (mesh_t2e m) = 6" using bt(4) by (simp add: is_array_def)
  have s: "is_array 6 Ne ?s" by (rule is_array_shift[OF bt(4)])
  have ent: "\<forall>i \<in> set (?e ! 0) \<union> set (?e ! 1). i < V"
  proof
    fix x assume "x \<in> set (?e ! 0) \<union> set (?e ! 1)"
    then consider "x \<in> set (?e ! 0)" | "x \<in> set (?e ! 1)" by blast
    then show "x < V"
    proof cases
      case 1
      then obtain g where "g < length (?e ! 0)" "x = ?e ! 0 ! g" by (auto simp: in_set_conv_nth)
      moreover have "length (?e ! 0) = ncols ?e" using bt(3) by (simp add: is_array_nth)
      ultimately show ?thesis using MeshTet_built_edge_entries(1)[OF t b V] by simp
    next
      case 2
      then obtain g where "g < length (?e ! 1)" "x = ?e ! 1 ! g" by (auto simp: in_set_conv_nth)
      moreover have "length (?e ! 1) = ncols ?e" using bt(3) by (simp add: is_array_nth)
      ultimately show ?thesis using MeshTet_built_edge_entries(2)[OF t b V] by simp
    qed
  qed
  note np = tet_newp_props[OF p bt(3)]
  have nc: "ncols ?newp = V + ?nE" using ncols_array[OF np(1)] by simp
  have ent2: "\<forall>i \<in> set (concat (take 6 ?s)). i < ncols ?newp"
  proof
    fix x assume "x \<in> set (concat (take 6 ?s))"
    then have "x \<in> set (concat ?s)" using l6 by simp
    then obtain r where r: "r \<in> set (mesh_t2e m)" and x: "x \<in> (\<lambda>y. y + V) ` set r" by auto
    from r obtain k where k: "k < 6" "r = mesh_t2e m ! k" using l6 by (auto simp: in_set_conv_nth)
    from x obtain y where y: "y \<in> set r" "x = y + V" by blast
    have lr: "length r = Ne" using bt(4) k by (simp add: is_array_nth)
    from y(1) obtain i where i: "i < Ne" "y = r ! i" using lr by (auto simp: in_set_conv_nth)
    have "y < ?nE" using bt(6)[OF k(1) i(1)] i(2) k(2) by simp
    then show "x < ncols ?newp" unfolding nc y(2) by simp
  qed
  obtain c1 c2 c3 where cs: "MeshTet_masks ?newp ?s = (c1, c2, c3)"
    by (cases "MeshTet_masks ?newp ?s") auto
  note mp = MeshTet_masks_props[OF s cs]
  note co = MeshTet_corners_props[OF t s]
  let ?newt = "MeshTet_middle ?s (c1, c2, c3) (MeshTet_corners t ?s)"
  from MeshTet_middle_cols[OF s mp(1,2,3) co(1)] obtain n where
    a: "is_array 4 n ?newt"
    and c: "cols ?newt = cols (MeshTet_corners t ?s) @ middle_cols Ne ?s c1 c2 c3"
    by blast
  have four: "0 < (4::nat)" by simp
  have "length (middle_cols Ne ?s c1 c2 c3) = 4 * Ne"
    using arg_cong[OF middle_cols_mset[OF bt(4) cs], of size]
    by (simp add: length_concat_central)
  then have "length (cols ?newt) = 8 * Ne" unfolding c using length_cols[OF co(1) four] by simp
  then have n: "n = 8 * Ne" using length_cols[OF a four] by simp
  have a': "is_array 4 (8 * Ne) ?newt" using a unfolding n .
  have "is_array 4 (8 * Ne) (mesh_t \<lparr>mesh_p = ?newp, mesh_t = ?newt\<rparr>)" using a' by simp
  from MeshTet_build_props[OF this] obtain m' where
    b': "MeshTet_build_mappings \<lparr>mesh_p = ?newp, mesh_t = ?newt\<rparr> = Inr m'" by blast
  note bt' = MeshTet_built[OF a' b']
  have r: "MeshTet_single_refine m = Inr m'"
    unfolding MeshTet_single_refine_def Let_def sz
    using lp le lt l6 ent ent2 cs b' by (simp add: bt(1) bt(2))
  show ?thesis
  proof (rule exI[of _ m'], rule exI[of _ c1], rule exI[of _ c2], rule exI[of _ c3], intro conjI)
    show "MeshTet_single_refine m = Inr m'" by (rule r)
    show "mesh_p m' = ?newp" by (rule bt'(1))
    show "MeshTet_masks (mesh_p m') ?s = (c1, c2, c3)" unfolding bt'(1) by (rule cs)
    show "is_array 4 (8 * Ne) (mesh_t m')" unfolding bt'(2) by (rule a')
    show "cols (mesh_t m') = cols (MeshTet_corners t ?s) @ middle_cols Ne ?s c1 c2 c3"
      unfolding bt'(2) by (rule c)
  qed
qed


lemma tet_choice_shortest:
  "tet_choice a b c = Diag_I_VI \<Longrightarrow> b \<le> a \<and> b \<le> c"
  "tet_choice a b c = Diag_II_IV \<Longrightarrow> a \<le> b \<and> a \<le> c"
  "tet_choice a b c = Diag_III_V \<Longrightarrow> c \<le> a \<and> c \<le> b"
  unfolding tet_choice_def by (auto split: if_splits)

lemma tet_element_choice_shortest:
  "diag_length2 newp mids (tet_element_choice newp mids) \<le> diag_length2 newp mids d"
proof (cases "tet_element_choice newp mids")
  case Diag_II_IV
  then show ?thesis
    using tet_choice_shortest(2)[of "diag_length2 newp mids Diag_II_IV"
        "diag_length2 newp mids Diag_I_VI" "diag_length2 newp mids Diag_III_V"]
    unfolding tet_element_choice_def by (cases d) simp_all
next
  case Diag_I_VI
  then show ?thesis
    using tet_choice_shortest(1)[of "diag_length2 newp mids Diag_II_IV"
        "diag_length2 newp mids Diag_I_VI" "diag_length2 newp mids Diag_III_V"]
    unfolding tet_element_choice_def by (cases d) simp_all
next
  case Diag_III_V
  then show ?thesis
    using tet_choice_shortest(3)[of "diag_length2 newp mids Diag_II_IV"
        "diag_length2 newp mids Diag_I_VI" "diag_length2 newp mids Diag_III_V"]
    unfolding tet_element_choice_def by (cases d) simp_all
qed

lemma tet_element_choice_ties:
  "diag_length2 newp mids Diag_I_VI \<le> diag_length2 newp mids Diag_II_IV \<Longrightarrow>
   diag_length2 newp mids Diag_I_VI \<le> diag_length2 newp mids Diag_III_V \<Longrightarrow>
   tet_element_choice newp mids = Diag_I_VI"
  "diag_length2 newp mids Diag_II_IV < diag_length2 newp mids Diag_I_VI \<Longrightarrow>
   diag_length2 newp mids Diag_II_IV \<le> diag_length2 newp mids Diag_III_V \<Longrightarrow>
   tet_element_choice newp mids = Diag_II_IV"
  "diag_length2 newp mids Diag_III_V < diag_length2 newp mids Diag_I_VI \<Longrightarrow>
   diag_length2 newp mids Diag_III_V < diag_length2 newp mids Diag_II_IV \<Longrightarrow>
   tet_element_choice newp mids = Diag_III_V"
  unfolding tet_element_choice_def tet_choice_def by auto

lemma tet_central_ends:
  "c \<in> set (tet_central d mids) \<Longrightarrow> take 2 c = [fst (diag_ends d mids), snd (diag_ends d mids)]"
  by (cases d) (auto simp: tet_central_def diag_ends_def)

lemma set_concat_central:
  "i \<in> set L \<Longrightarrow> set (f i) \<subseteq> set (concat (map f L))"
  by auto


lemma unit_tet_arrays:
  "is_array 3 4 (cols [[0, 0, 0], [1, 0, 0], [0, 1, 0], [0, 0, 1::real]])"
  "is_array 4 1 unit_tet_t" "indices_below 4 unit_tet_t"
  by code_simp+

section \<open>The default triangular mesh\<close>

text \<open>
  Claim C4. The triangular mesh constructed with vertices and connectivity omitted has the
  vertices (0,0), (1,0), (0,1), (1,1) and the elements (0,1,2) and (1,3,2). Its
  \<open>boundary_facets\<close> are the facets 0, 1, 3 and 4 of the facet table, which are the four
  outer edges {0,1}, {1,3}, {3,2}, {0,2}; its \<open>boundary_nodes\<close> are all four vertices
  0, 1, 2, 3; and the diagonal edge {1,2}, facet 2 of the table, is not a boundary facet.
\<close>

theorem default_tri_boundary:
  "(case MeshTri_init None None True None of
      Inl e \<Rightarrow> False
    | Inr m \<Rightarrow>
        cols (mesh_p m) = [[0, 0], [1, 0], [0, 1], [1, 1]] \<and>
        boundary_facets m = [0, 1, 3, 4] \<and>
        set (map (\<lambda>f. set (col (mesh_facets m) f)) (boundary_facets m))
          = {{0, 1}, {1, 3}, {3, 2}, {0, 2}} \<and>
        length (boundary_facets m) = 4 \<and>
        boundary_nodes m = [0, 1, 2, 3] \<and>
        col (mesh_facets m) 2 = [1, 2] \<and>
        2 \<notin> set (boundary_facets m))"
  by code_simp

section \<open>Validation\<close>

text \<open>
  Claim C8 says that a connectivity entry that is no index of a vertex makes the validation
  at construction fail. \<^verbatim>\<open>Mesh._validate\<close> has no such check. The mesh of
  \<open>validate_accepts_index_out_of_range\<close> has three vertices and the elements (0,1,2) and
  (0,1,5): every vertex is in an element, no two vertices coincide, the entry 5 is out of
  range, and the validation passes and the constructor returns the mesh.
\<close>

theorem validate_accepts_index_out_of_range:
  "\<not> indices_below (ncols flat_p) far_t \<and>
   validate Tri flat_p far_t = Inr () \<and>
   (case MeshTri_init (Some flat_p) (Some far_t) True None of
      Inl e \<Rightarrow> False
    | Inr m \<Rightarrow> mesh_t m = [[0, 0], [1, 1], [2, 5]])"
  by code_simp

text \<open>
  Claim C8, as the code has it. The validation passes exactly when the connectivity has an
  entry to read, the vertices have at most three coordinates, the connectivity has the
  number of rows of the mesh type, every index below the number of vertices occurs in the
  connectivity, and no two vertices coincide. Whether the entries of the connectivity are
  below the number of vertices is not looked at. When the validation fails, it fails with
  one of its four messages, or with the \<^verbatim>\<open>IndexError\<close> of reading \<^verbatim>\<open>t[0, 0]\<close>.
\<close>

theorem validate_checks:
  "(validate rd p t = Inr () \<longleftrightarrow>
      t \<noteq> [] \<and> hd t \<noteq> [] \<and> length p \<le> 3 \<and> length t = nvertices rd \<and>
      {0..<ncols p} \<subseteq> set (concat t) \<and> distinct (cols p)) \<and>
   (\<forall>e. validate rd p t = Inl e \<longrightarrow> e = IndexError \<or> is_InvalidMesh e)"
proof
  show "validate rd p t = Inr () \<longleftrightarrow>
      t \<noteq> [] \<and> hd t \<noteq> [] \<and> length p \<le> 3 \<and> length t = nvertices rd \<and>
      {0..<ncols p} \<subseteq> set (concat t) \<and> distinct (cols p)"
    by (rule validate_Inr_iff)
  show "\<forall>e. validate rd p t = Inl e \<longrightarrow> e = IndexError \<or> is_InvalidMesh e"
    by (auto simp: validate_def is_InvalidMesh_def split: if_splits)
qed

theorem validate_checks_witness:
  "far_t \<noteq> [] \<and> hd far_t \<noteq> [] \<and> length flat_p \<le> 3 \<and> length far_t = nvertices Tri \<and>
   {0..<ncols flat_p} \<subseteq> set (concat far_t) \<and> distinct (cols flat_p) \<and>
   \<not> indices_below (ncols flat_p) far_t \<and>
   validate Tri flat_p far_t = Inr ()"
proof -
  have h: "far_t \<noteq> [] \<and> hd far_t \<noteq> [] \<and> length flat_p \<le> 3 \<and> length far_t = nvertices Tri \<and>
      {0..<ncols flat_p} \<subseteq> set (concat far_t) \<and> distinct (cols flat_p)"
    by code_simp
  have n: "\<not> indices_below (ncols flat_p) far_t" by code_simp
  from h have "validate Tri flat_p far_t = Inr ()"
    using validate_checks[of Tri flat_p far_t] by blast
  with h n show ?thesis by blast
qed

section \<open>The facet-to-element table\<close>

text \<open>
  Claim C5 says that a facet referenced by more than two elements makes the construction of
  the connectivity tables fail with a topology error. No \<^verbatim>\<open>_build_mappings\<close> raises
  one. In the mesh of \<open>fan_is_built\<close> the three triangles (0,1,2), (0,1,3), (0,1,4) share
  the edge {0,1}, facet 0 of the table: the constructor, validation included, returns the
  mesh, with element 0 in slot 0 and element 2 in slot 1 of that facet; element 1 is in
  neither.
\<close>

theorem fan_is_built:
  "(case MeshTri_init (Some fan_p) (Some fan_t) True None of
      Inl e \<Rightarrow> False
    | Inr m \<Rightarrow>
        col (mesh_facets m) 0 = [0, 1] \<and>
        ref_elements 3 3 (mesh_t2f m) 0 = [0, 1, 2] \<and>
        mesh_f2t m = [[0, 0, 1, 2, 0, 1, 2], [2, - 1, - 1, - 1, - 1, - 1, - 1]])"
  by code_simp

text \<open>
  Claim C5, as the code has it. For every connectivity array of three rows
  \<^verbatim>\<open>MeshTri._build_mappings\<close> returns the tables, and for every connectivity array of four
  rows \<^verbatim>\<open>MeshTet._build_mappings\<close> does, however many elements reference a facet. Slot 0
  of every facet holds one of the elements that reference it; slot 1 holds \<open>-1\<close> or one of
  the elements that reference it.
\<close>

theorem build_mappings_never_fails:
  "(is_array 3 ne t \<longrightarrow>
      (\<exists>m. MeshTri_build_mappings \<lparr>mesh_p = p, mesh_t = t\<rparr> = Inr m \<and>
         (\<forall>f < ncols (mesh_facets m).
            mesh_f2t m ! 0 ! f \<in> int ` set (ref_elements 3 ne (mesh_t2f m) f) \<and>
            (mesh_f2t m ! 1 ! f = - 1 \<or>
             mesh_f2t m ! 1 ! f \<in> int ` set (ref_elements 3 ne (mesh_t2f m) f))))) \<and>
   (is_array 4 ne' t' \<longrightarrow>
      (\<exists>m. MeshTet_build_mappings \<lparr>mesh_p = p', mesh_t = t'\<rparr> = Inr m \<and>
         (\<forall>f < ncols (mesh_facets m).
            mesh_f2t m ! 0 ! f \<in> int ` set (ref_elements 4 ne' (mesh_t2f m) f) \<and>
            (mesh_f2t m ! 1 ! f = - 1 \<or>
             mesh_f2t m ! 1 ! f \<in> int ` set (ref_elements 4 ne' (mesh_t2f m) f)))))"
proof (intro conjI impI)
  assume "is_array 3 ne t"
  from MeshTri_tables[OF this, of p] obtain m ixb where
    b: "MeshTri_build_mappings \<lparr>mesh_p = p, mesh_t = t\<rparr> = Inr m"
    and l: "length ixb = 3 * ne" and r: "set ixb = {0..<ncols (mesh_facets m)}"
    and t2f: "mesh_t2f m = reshape 3 ne ixb"
    and f2t: "mesh_f2t m = build_f2t 3 (mesh_t2f m) ne (ncols (mesh_facets m))"
    by (elim exE conjE)
  show "\<exists>m. MeshTri_build_mappings \<lparr>mesh_p = p, mesh_t = t\<rparr> = Inr m \<and>
         (\<forall>f < ncols (mesh_facets m).
            mesh_f2t m ! 0 ! f \<in> int ` set (ref_elements 3 ne (mesh_t2f m) f) \<and>
            (mesh_f2t m ! 1 ! f = - 1 \<or>
             mesh_f2t m ! 1 ! f \<in> int ` set (ref_elements 3 ne (mesh_t2f m) f)))"
    using b f2t_props(1,2)[OF l r _ t2f f2t] by blast
next
  assume "is_array 4 ne' t'"
  from MeshTet_tables[OF this, of p'] obtain m ixb where
    b: "MeshTet_build_mappings \<lparr>mesh_p = p', mesh_t = t'\<rparr> = Inr m"
    and l: "length ixb = 4 * ne'" and r: "set ixb = {0..<ncols (mesh_facets m)}"
    and t2f: "mesh_t2f m = reshape 4 ne' ixb"
    and f2t: "mesh_f2t m = build_f2t 4 (mesh_t2f m) ne' (ncols (mesh_facets m))"
    by (elim exE conjE)
  show "\<exists>m. MeshTet_build_mappings \<lparr>mesh_p = p', mesh_t = t'\<rparr> = Inr m \<and>
         (\<forall>f < ncols (mesh_facets m).
            mesh_f2t m ! 0 ! f \<in> int ` set (ref_elements 4 ne' (mesh_t2f m) f) \<and>
            (mesh_f2t m ! 1 ! f = - 1 \<or>
             mesh_f2t m ! 1 ! f \<in> int ` set (ref_elements 4 ne' (mesh_t2f m) f)))"
    using b f2t_props(1,2)[OF l r _ t2f f2t] by blast
qed

theorem build_mappings_never_fails_witness:
  "is_array 3 3 fan_t \<and> is_array 4 1 unit_tet_t \<and>
   (\<exists>m. MeshTri_build_mappings \<lparr>mesh_p = fan_p, mesh_t = fan_t\<rparr> = Inr m) \<and>
   (\<exists>m. MeshTet_build_mappings \<lparr>mesh_p = [], mesh_t = unit_tet_t\<rparr> = Inr m)"
proof -
  have h1: "is_array 3 3 fan_t" by code_simp
  have h2: "is_array 4 1 unit_tet_t" by code_simp
  show ?thesis
    using h1 h2 build_mappings_never_fails[of 3 fan_t fan_p 1 unit_tet_t "[]"] by blast
qed

text \<open>
  Claim C6 says that slot 0 of a facet holds the referencing element with the least index.
  In the default triangular mesh no facet is referenced by more than two elements; the
  diagonal {1,2}, facet 2 of the table, is referenced by the elements 0 and 1, and its
  slot 0 holds element 1 and its slot 1 element 0: the diagonal is local facet 0 of
  element 1 and local facet 1 of element 0.
\<close>

theorem default_tri_slot0_not_least:
  "(case MeshTri_init None None True None of
      Inl e \<Rightarrow> False
    | Inr m \<Rightarrow>
        list_all (\<lambda>f. length (ref_elements 3 2 (mesh_t2f m) f) \<le> 2) [0..<ncols (mesh_facets m)] \<and>
        col (mesh_facets m) 2 = [1, 2] \<and>
        ref_elements 3 2 (mesh_t2f m) 2 = [0, 1] \<and>
        mesh_f2t m ! 0 ! 2 = 1 \<and>
        mesh_f2t m ! 1 ! 2 = 0)"
  by code_simp

text \<open>
  Claim C6, as the code has it, for triangular and tetrahedral meshes. The references to a
  facet are read local slot by local slot and, in one slot, element by element. Slot 0 of
  the facet holds the element of the first reference and slot 1 the element of the last
  one, or \<open>-1\<close> when both are the same element (\<open>f2t_first_last\<close>). When the facet has at
  most two references, every element that references it and is not in slot 0 is in slot 1.
\<close>

theorem f2t_holds_first_and_last_reference:
  "(is_array 3 ne t \<and> MeshTri_build_mappings \<lparr>mesh_p = p, mesh_t = t\<rparr> = Inr m \<and>
    f < ncols (mesh_facets m) \<longrightarrow>
      f2t_first_last 3 ne (mesh_t2f m) (mesh_f2t m) f \<and>
      (ref_count (mesh_t2f m) f \<le> 2 \<longrightarrow>
         (\<forall>x \<in> set (ref_elements 3 ne (mesh_t2f m) f).
            int x \<noteq> mesh_f2t m ! 0 ! f \<longrightarrow> mesh_f2t m ! 1 ! f = int x))) \<and>
   (is_array 4 ne' t' \<and> MeshTet_build_mappings \<lparr>mesh_p = p', mesh_t = t'\<rparr> = Inr m' \<and>
    f' < ncols (mesh_facets m') \<longrightarrow>
      f2t_first_last 4 ne' (mesh_t2f m') (mesh_f2t m') f' \<and>
      (ref_count (mesh_t2f m') f' \<le> 2 \<longrightarrow>
         (\<forall>x \<in> set (ref_elements 4 ne' (mesh_t2f m') f').
            int x \<noteq> mesh_f2t m' ! 0 ! f' \<longrightarrow> mesh_f2t m' ! 1 ! f' = int x)))"
proof (intro conjI impI ballI; (elim conjE)?)
  assume a: "is_array 3 ne t" and b: "MeshTri_build_mappings \<lparr>mesh_p = p, mesh_t = t\<rparr> = Inr m"
    and f: "f < ncols (mesh_facets m)"
  from MeshTri_tables[OF a, of p] b obtain ixb where
    l: "length ixb = 3 * ne" and r: "set ixb = {0..<ncols (mesh_facets m)}"
    and t2f: "mesh_t2f m = reshape 3 ne ixb"
    and f2t: "mesh_f2t m = build_f2t 3 (mesh_t2f m) ne (ncols (mesh_facets m))"
    by auto
  show "f2t_first_last 3 ne (mesh_t2f m) (mesh_f2t m) f"
    unfolding f2t unfolding t2f by (rule f2t_first_last_bex[OF l r f])
  fix x assume "ref_count (mesh_t2f m) f \<le> 2" "x \<in> set (ref_elements 3 ne (mesh_t2f m) f)"
    "int x \<noteq> mesh_f2t m ! 0 ! f"
  then show "mesh_f2t m ! 1 ! f = int x" by (rule f2t_props(4)[OF l r f t2f f2t])
next
  assume a: "is_array 4 ne' t'" and b: "MeshTet_build_mappings \<lparr>mesh_p = p', mesh_t = t'\<rparr> = Inr m'"
    and f: "f' < ncols (mesh_facets m')"
  from MeshTet_tables[OF a, of p'] b obtain ixb where
    l: "length ixb = 4 * ne'" and r: "set ixb = {0..<ncols (mesh_facets m')}"
    and t2f: "mesh_t2f m' = reshape 4 ne' ixb"
    and f2t: "mesh_f2t m' = build_f2t 4 (mesh_t2f m') ne' (ncols (mesh_facets m'))"
    by auto
  show "f2t_first_last 4 ne' (mesh_t2f m') (mesh_f2t m') f'"
    unfolding f2t unfolding t2f by (rule f2t_first_last_bex[OF l r f])
  fix x assume "ref_count (mesh_t2f m') f' \<le> 2" "x \<in> set (ref_elements 4 ne' (mesh_t2f m') f')"
    "int x \<noteq> mesh_f2t m' ! 0 ! f'"
  then show "mesh_f2t m' ! 1 ! f' = int x" by (rule f2t_props(4)[OF l r f t2f f2t])
qed

theorem f2t_holds_first_and_last_reference_witness:
  "is_array 3 2 [[0, 1], [1, 3], [2, 2::nat]] \<and> is_array 4 1 unit_tet_t \<and>
   (\<exists>m. MeshTri_build_mappings \<lparr>mesh_p = [[0, 1, 0, 1], [0, 0, 1, 1]],
                                  mesh_t = [[0, 1], [1, 3], [2, 2]]\<rparr> = Inr m \<and>
        2 < ncols (mesh_facets m) \<and> ref_count (mesh_t2f m) 2 \<le> 2 \<and>
        f2t_first_last 3 2 (mesh_t2f m) (mesh_f2t m) 2 \<and>
        0 \<in> set (ref_elements 3 2 (mesh_t2f m) 2) \<and> mesh_f2t m ! 0 ! 2 = 1 \<and>
        mesh_f2t m ! 1 ! 2 = 0) \<and>
   (\<exists>m. MeshTet_build_mappings \<lparr>mesh_p = cols [[0, 0, 0], [1, 0, 0], [0, 1, 0], [0, 0, 1]],
                                  mesh_t = unit_tet_t\<rparr> = Inr m \<and>
        0 < ncols (mesh_facets m) \<and>
        f2t_first_last 4 1 (mesh_t2f m) (mesh_f2t m) 0)"
proof -
  let ?M = "\<lparr>mesh_p = [[0, 1, 0, 1], [0, 0, 1, 1]],
        mesh_t = [[0, 1], [1, 2], [2, 3]],
        mesh_facets = [[0, 0, 1, 1, 2], [1, 2, 2, 3, 3]],
        mesh_t2f = [[0, 2], [2, 4], [1, 3]],
        mesh_f2t = [[0, 0, 1, 1, 1], [- 1, - 1, 0, - 1, - 1]]\<rparr>"
  let ?N = "\<lparr>mesh_p = [[0, 1, 0, 0], [0, 0, 1, 0], [0, 0, 0, 1]],
        mesh_t = [[0], [1], [2], [3]],
        mesh_facets = [[0, 0, 0, 1], [1, 1, 2, 2], [2, 3, 3, 3]],
        mesh_t2f = [[0], [1], [2], [3]],
        mesh_f2t = [[0, 0, 0, 0], [- 1, - 1, - 1, - 1]],
        mesh_edges = [[0, 0, 0, 1, 1, 2], [1, 2, 3, 2, 3, 3]],
        mesh_t2e = [[0], [3], [1], [2], [4], [5]]\<rparr>"
  have h1: "is_array 3 2 [[0, 1], [1, 3], [2, 2::nat]]" by code_simp
  have h2: "is_array 4 1 unit_tet_t" by code_simp
  have h3: "2 < ncols (mesh_facets ?M)" "ref_count (mesh_t2f ?M) 2 \<le> 2"
    "0 \<in> set (ref_elements 3 2 (mesh_t2f ?M) 2)" "mesh_f2t ?M ! 0 ! 2 = 1"
    "mesh_f2t ?M ! 1 ! 2 = 0"
    by code_simp+
  have h4: "0 < ncols (mesh_facets ?N)" by code_simp
  note inst = f2t_holds_first_and_last_reference[of 2 "[[0, 1], [1, 3], [2, 2]]"
      "[[0, 1, 0, 1], [0, 0, 1, 1]]" ?M 2 1 unit_tet_t
      "cols [[0, 0, 0], [1, 0, 0], [0, 1, 0], [0, 0, 1]]" ?N 0]
  have a: "f2t_first_last 3 2 (mesh_t2f ?M) (mesh_f2t ?M) 2"
    using inst h1 h3(1) default_tri_built by blast
  have b: "f2t_first_last 4 1 (mesh_t2f ?N) (mesh_f2t ?N) 0"
    using inst h2 h4 unit_tet_built by blast
  show ?thesis
    using h1 h2 h3 h4 a b default_tri_built unit_tet_built by blast
qed

text \<open>
  Claim C7 says that slot 1 of a facet is \<open>-1\<close> exactly when one element references the
  facet, in every mesh where no facet is referenced by more than two elements. The mesh of
  \<open>flat_shared_facet_flagged_boundary\<close> passes the validation and has the elements (0,1,1)
  and (0,1,2). No facet of it is referenced by more than two elements, the edge {0,1} is
  referenced by both (three times: the first element has it as its local facets 0 and 2),
  and its slot 1 is \<open>-1\<close>: the first and the last reference are of element 0.
\<close>

theorem flat_shared_facet_flagged_boundary:
  "(case MeshTri_init (Some flat_p) (Some flat_t) True None of
      Inl e \<Rightarrow> False
    | Inr m \<Rightarrow>
        list_all (\<lambda>f. length (ref_elements 3 2 (mesh_t2f m) f) \<le> 2) [0..<ncols (mesh_facets m)] \<and>
        col (mesh_facets m) 0 = [0, 1] \<and>
        ref_elements 3 2 (mesh_t2f m) 0 = [0, 1] \<and>
        ref_count (mesh_t2f m) 0 = 3 \<and>
        mesh_f2t m ! 1 ! 0 = - 1)"
  by code_simp

text \<open>
  Claim C7, as the code has it, for triangular and tetrahedral meshes. For every facet with
  at most two references (an element with the facet in two of its local slots counts
  twice; when the vertices of every element are distinct, these are the facets referenced
  by at most two elements), slot 0 is the index of an element, and slot 1 is \<open>-1\<close> if and
  only if exactly one element references the facet.
\<close>

theorem f2t_slot1_sentinel_iff_boundary:
  "(is_array 3 ne t \<and> MeshTri_build_mappings \<lparr>mesh_p = p, mesh_t = t\<rparr> = Inr m \<and>
    f < ncols (mesh_facets m) \<and> ref_count (mesh_t2f m) f \<le> 2 \<longrightarrow>
      0 \<le> mesh_f2t m ! 0 ! f \<and> mesh_f2t m ! 0 ! f < int ne \<and>
      ((mesh_f2t m ! 1 ! f = - 1) = (length (ref_elements 3 ne (mesh_t2f m) f) = 1))) \<and>
   (is_array 4 ne' t' \<and> MeshTet_build_mappings \<lparr>mesh_p = p', mesh_t = t'\<rparr> = Inr m' \<and>
    f' < ncols (mesh_facets m') \<and> ref_count (mesh_t2f m') f' \<le> 2 \<longrightarrow>
      0 \<le> mesh_f2t m' ! 0 ! f' \<and> mesh_f2t m' ! 0 ! f' < int ne' \<and>
      ((mesh_f2t m' ! 1 ! f' = - 1) = (length (ref_elements 4 ne' (mesh_t2f m') f') = 1)))"
proof (intro conjI impI; (elim conjE)?)
  assume a: "is_array 3 ne t" and b: "MeshTri_build_mappings \<lparr>mesh_p = p, mesh_t = t\<rparr> = Inr m"
    and f: "f < ncols (mesh_facets m)" and c: "ref_count (mesh_t2f m) f \<le> 2"
  from MeshTri_tables[OF a, of p] b obtain ixb where
    l: "length ixb = 3 * ne" and r: "set ixb = {0..<ncols (mesh_facets m)}"
    and t2f: "mesh_t2f m = reshape 3 ne ixb"
    and f2t: "mesh_f2t m = build_f2t 3 (mesh_t2f m) ne (ncols (mesh_facets m))"
    by auto
  note fp = f2t_props[OF l r f t2f f2t]
  from fp(1) obtain x where x: "mesh_f2t m ! 0 ! f = int x" "x \<in> set (ref_elements 3 ne (mesh_t2f m) f)"
    by (elim imageE)
  have "x < ne" using x(2) by (simp add: set_ref_elements)
  then show "0 \<le> mesh_f2t m ! 0 ! f" "mesh_f2t m ! 0 ! f < int ne" using x(1) by simp_all
  show "(mesh_f2t m ! 1 ! f = - 1) = (length (ref_elements 3 ne (mesh_t2f m) f) = 1)"
    using c by (rule fp(3))
next
  assume a: "is_array 4 ne' t'" and b: "MeshTet_build_mappings \<lparr>mesh_p = p', mesh_t = t'\<rparr> = Inr m'"
    and f: "f' < ncols (mesh_facets m')" and c: "ref_count (mesh_t2f m') f' \<le> 2"
  from MeshTet_tables[OF a, of p'] b obtain ixb where
    l: "length ixb = 4 * ne'" and r: "set ixb = {0..<ncols (mesh_facets m')}"
    and t2f: "mesh_t2f m' = reshape 4 ne' ixb"
    and f2t: "mesh_f2t m' = build_f2t 4 (mesh_t2f m') ne' (ncols (mesh_facets m'))"
    by auto
  note fp = f2t_props[OF l r f t2f f2t]
  from fp(1) obtain x where x: "mesh_f2t m' ! 0 ! f' = int x" "x \<in> set (ref_elements 4 ne' (mesh_t2f m') f')"
    by (elim imageE)
  have "x < ne'" using x(2) by (simp add: set_ref_elements)
  then show "0 \<le> mesh_f2t m' ! 0 ! f'" "mesh_f2t m' ! 0 ! f' < int ne'" using x(1) by simp_all
  show "(mesh_f2t m' ! 1 ! f' = - 1) = (length (ref_elements 4 ne' (mesh_t2f m') f') = 1)"
    using c by (rule fp(3))
qed

theorem f2t_slot1_sentinel_iff_boundary_witness:
  "is_array 3 2 [[0, 1], [1, 3], [2, 2::nat]] \<and> is_array 4 1 unit_tet_t \<and>
   (\<exists>m. MeshTri_build_mappings \<lparr>mesh_p = [[0, 1, 0, 1], [0, 0, 1, 1]],
                                  mesh_t = [[0, 1], [1, 3], [2, 2]]\<rparr> = Inr m \<and>
        2 < ncols (mesh_facets m) \<and> ref_count (mesh_t2f m) 2 \<le> 2 \<and>
        0 \<le> mesh_f2t m ! 0 ! 2 \<and> mesh_f2t m ! 0 ! 2 < 2 \<and>
        ((mesh_f2t m ! 1 ! 2 = - 1) = (length (ref_elements 3 2 (mesh_t2f m) 2) = 1))) \<and>
   (\<exists>m. MeshTet_build_mappings \<lparr>mesh_p = cols [[0, 0, 0], [1, 0, 0], [0, 1, 0], [0, 0, 1]],
                                  mesh_t = unit_tet_t\<rparr> = Inr m \<and>
        0 < ncols (mesh_facets m) \<and> ref_count (mesh_t2f m) 0 \<le> 2 \<and>
        ((mesh_f2t m ! 1 ! 0 = - 1) = (length (ref_elements 4 1 (mesh_t2f m) 0) = 1)))"
proof -
  let ?M = "\<lparr>mesh_p = [[0, 1, 0, 1], [0, 0, 1, 1]],
        mesh_t = [[0, 1], [1, 2], [2, 3]],
        mesh_facets = [[0, 0, 1, 1, 2], [1, 2, 2, 3, 3]],
        mesh_t2f = [[0, 2], [2, 4], [1, 3]],
        mesh_f2t = [[0, 0, 1, 1, 1], [- 1, - 1, 0, - 1, - 1]]\<rparr>"
  let ?N = "\<lparr>mesh_p = [[0, 1, 0, 0], [0, 0, 1, 0], [0, 0, 0, 1]],
        mesh_t = [[0], [1], [2], [3]],
        mesh_facets = [[0, 0, 0, 1], [1, 1, 2, 2], [2, 3, 3, 3]],
        mesh_t2f = [[0], [1], [2], [3]],
        mesh_f2t = [[0, 0, 0, 0], [- 1, - 1, - 1, - 1]],
        mesh_edges = [[0, 0, 0, 1, 1, 2], [1, 2, 3, 2, 3, 3]],
        mesh_t2e = [[0], [3], [1], [2], [4], [5]]\<rparr>"
  have h1: "is_array 3 2 [[0, 1], [1, 3], [2, 2::nat]]" by code_simp
  have h2: "is_array 4 1 unit_tet_t" by code_simp
  have h3: "2 < ncols (mesh_facets ?M)" "ref_count (mesh_t2f ?M) 2 \<le> 2" by code_simp+
  have h4: "0 < ncols (mesh_facets ?N)" "ref_count (mesh_t2f ?N) 0 \<le> 2" by code_simp+
  note inst = f2t_slot1_sentinel_iff_boundary[of 2 "[[0, 1], [1, 3], [2, 2]]"
      "[[0, 1, 0, 1], [0, 0, 1, 1]]" ?M 2 1 unit_tet_t
      "cols [[0, 0, 0], [1, 0, 0], [0, 1, 0], [0, 0, 1]]" ?N 0]
  have a: "0 \<le> mesh_f2t ?M ! 0 ! 2 \<and> mesh_f2t ?M ! 0 ! 2 < int 2 \<and>
      ((mesh_f2t ?M ! 1 ! 2 = - 1) = (length (ref_elements 3 2 (mesh_t2f ?M) 2) = 1))"
    using inst h1 h3 default_tri_built by blast
  have b: "(mesh_f2t ?N ! 1 ! 0 = - 1) = (length (ref_elements 4 1 (mesh_t2f ?N) 0) = 1)"
    using inst h2 h4 unit_tet_built by blast
  have a': "mesh_f2t ?M ! 0 ! 2 < 2" using a by simp
  show ?thesis
    apply (intro conjI)
       apply (rule h1)
      apply (rule h2)
     apply (rule exI[of _ ?M])
    using h3 a a' default_tri_built apply blast
    apply (rule exI[of _ ?N])
    using h4 b unit_tet_built apply blast
    done
qed

section \<open>The stored connectivity of a triangular mesh\<close>

text \<open>
  Claim C10. In every triangular mesh a caller can hold, constructed and then refined any
  number of times (\<open>tri_reachable\<close>), every column of the stored connectivity is sorted in
  ascending order. The constructor stores the column-wise sorted copy of the connectivity
  it is given: column \<open>j\<close> of the stored array is the sorted column \<open>j\<close> of the caller's, so
  the caller's order of the vertices of an element is not kept (the element (1,3,2) of the
  default mesh is stored as (1,2,3)).
\<close>

theorem tri_connectivity_columns_sorted:
  "(tri_reachable m \<longrightarrow> (\<forall>j < ncols (mesh_t m). sorted (col (mesh_t m) j))) \<and>
   (is_array 3 ne t \<and> MeshTri_init (Some p) (Some t) v im = Inr m' \<longrightarrow>
      mesh_t m' = np_sort_axis0 t \<and> (\<forall>j < ne. col (mesh_t m') j = sort (col t j)))"
proof (intro conjI impI allI; (elim conjE)?)
  fix j assume r: "tri_reachable m" and j: "j < ncols (mesh_t m)"
  from tri_reachable_inv[OF r] obtain n where
    a: "is_array 3 n (mesh_t m)" and s: "\<forall>j < n. sorted (col (mesh_t m) j)" by blast
  have "ncols (mesh_t m) = n" using ncols_array[OF a] by simp
  then show "sorted (col (mesh_t m) j)" using s j by simp
next
  assume t: "is_array 3 ne t" and i: "MeshTri_init (Some p) (Some t) v im = Inr m'"
  note inv = MeshTri_built_inv[OF t MeshTri_init_Inr[OF i]]
  show "mesh_t m' = np_sort_axis0 t" by (rule inv(3))
  fix j assume "j < ne"
  then show "col (mesh_t m') j = sort (col t j)" by (rule inv(4))
qed

theorem tri_connectivity_columns_sorted_witness:
  "is_array 3 2 [[0, 1], [1, 3], [2, 2::nat]] \<and>
   (\<exists>m. MeshTri_init (Some [[0, 1, 0, 1], [0, 0, 1, 1]]) (Some [[0, 1], [1, 3], [2, 2]]) True None
          = Inr m \<and>
        tri_reachable m \<and>
        col [[0, 1], [1, 3], [2, 2::nat]] 1 = [1, 3, 2] \<and>
        col (mesh_t m) 1 = [1, 2, 3] \<and> sorted (col (mesh_t m) 0) \<and> sorted (col (mesh_t m) 1) \<and>
        (\<exists>m'. MeshTri_single_refine m = Inr m' \<and> tri_reachable m' \<and> ncols (mesh_t m') = 8 \<and>
           sorted (col (mesh_t m') 7)))"
proof -
  let ?T = "[[0, 1], [1, 3], [2, 2::nat]]"
  let ?P = "[[0, 1, 0, 1], [0, 0, 1, 1::real]]"
  let ?M = "\<lparr>mesh_p = [[0, 1, 0, 1], [0, 0, 1, 1]],
        mesh_t = [[0, 1], [1, 2], [2, 3]],
        mesh_facets = [[0, 0, 1, 1, 2], [1, 2, 2, 3, 3]],
        mesh_t2f = [[0, 2], [2, 4], [1, 3]],
        mesh_f2t = [[0, 0, 1, 1, 1], [- 1, - 1, 0, - 1, - 1]]\<rparr>"
  let ?R = "\<lparr>mesh_p = [[0, 1, 0, 1, 1 / 2, 0, 1 / 2, 1, 1 / 2],
                  [0, 0, 1, 1, 0, 1 / 2, 1 / 2, 1 / 2, 1]],
        mesh_t = [[0, 1, 1, 2, 2, 3, 4, 6], [4, 6, 4, 6, 5, 7, 5, 7], [5, 7, 6, 8, 6, 8, 6, 8]],
        mesh_facets = [[0, 0, 1, 1, 1, 2, 2, 2, 3, 3, 4, 4, 5, 6, 6, 7],
                       [4, 5, 4, 6, 7, 5, 6, 8, 7, 8, 5, 6, 6, 7, 8, 8]],
        mesh_t2f = [[0, 3, 2, 6, 5, 8, 10, 13], [10, 13, 11, 14, 12, 15, 12, 15],
                    [1, 4, 3, 7, 6, 9, 11, 14]],
        mesh_f2t = [[0, 0, 2, 1, 1, 4, 3, 3, 5, 5, 6, 2, 4, 7, 3, 5],
                    [- 1, - 1, - 1, 2, - 1, - 1, 4, - 1, - 1, - 1, 0, 6, 6, 1, 7, 7]]\<rparr>"
  have h: "is_array 3 2 ?T" by code_simp
  have rM: "tri_reachable ?M" by (rule tri_reachable.constructed[OF h default_tri_init])
  have rR: "tri_reachable ?R" by (rule tri_reachable.refined[OF rM default_tri_refined])
  have n: "ncols (mesh_t ?M) = 2" "ncols (mesh_t ?R) = 8" by code_simp+
  have c: "col ?T 1 = [1, 3, 2]" by code_simp
  note inst = tri_connectivity_columns_sorted[of ?M 2 ?T ?P True None ?M]
  note inst' = tri_connectivity_columns_sorted[of ?R 2 ?T ?P True None ?M]
  have allM: "sorted (col (mesh_t ?M) j)" if "j < ncols (mesh_t ?M)" for j
    using inst rM that by blast
  have allR: "sorted (col (mesh_t ?R) j)" if "j < ncols (mesh_t ?R)" for j
    using inst' rR that by blast
  have allC: "col (mesh_t ?M) j = sort (col ?T j)" if "j < 2" for j
    using inst h default_tri_init that by blast
  have sM: "sorted (col (mesh_t ?M) 0)" "sorted (col (mesh_t ?M) 1)"
    by (rule allM, subst n(1), simp)+
  have cM: "col (mesh_t ?M) 1 = sort (col ?T 1)" by (rule allC) simp
  have cM': "col (mesh_t ?M) 1 = [1, 2, 3]" unfolding cM c by simp
  have sR: "sorted (col (mesh_t ?R) 7)" by (rule allR, subst n(2), simp)
  show ?thesis
    apply (intro conjI)
     apply (rule h)
    apply (rule exI[of _ ?M])
    apply (intro conjI)
          apply (rule default_tri_init)
         apply (rule rM)
        apply (rule c)
       apply (rule cM')
      apply (rule sM(1))
     apply (rule sM(2))
    apply (rule exI[of _ ?R])
    apply (intro conjI)
       apply (rule default_tri_refined)
      apply (rule rR)
     apply (rule n(2))
    apply (rule sR)
    done
qed

section \<open>Refinement of a triangular mesh\<close>

text \<open>
  Claim C2. Let \<open>p\<close> be the \<open>V\<close> vertices and \<open>t\<close> the \<open>Ne\<close> elements of a triangular mesh,
  every entry of \<open>t\<close> an index of a vertex, and \<open>m\<close> the mesh built from them, with its \<open>E\<close>
  facets (no facet twice in the table). Then a single refinement step returns a mesh \<open>m'\<close>
  with exactly \<open>V + E\<close> vertices, the \<open>V\<close> vertices of \<open>m\<close> first and the midpoint of facet
  \<open>f\<close> at index \<open>V + f\<close>, and exactly \<open>4 * Ne\<close> elements. For element \<open>i\<close> of \<open>m\<close> with the
  corners \<open>v0 \<le> v1 \<le> v2\<close> (\<open>v0 < v1 < v2\<close> when the element has three different vertices)
  and the midpoints \<open>m01, m12, m02\<close> of its edges, the array \<^verbatim>\<open>newt\<close> of the refinement has
  the columns \<open>(v0,m01,m02)\<close>, \<open>(v1,m01,m12)\<close>, \<open>(v2,m02,m12)\<close> and \<open>(m01,m12,m02)\<close>, at
  \<open>i\<close>, \<open>Ne + i\<close>, \<open>2 * Ne + i\<close> and \<open>3 * Ne + i\<close>, and the refined mesh stores each of
  them with its vertices in ascending order (\<open>tri_refined_element\<close>).
\<close>

theorem tri_single_refine_vertices_and_children:
  assumes "is_array 2 V p" and "is_array 3 Ne t" and "indices_below V t"
    and "MeshTri_build_mappings \<lparr>mesh_p = p, mesh_t = t\<rparr> = Inr m"
  shows "\<exists>m'. MeshTri_single_refine m = Inr m' \<and>
           distinct (cols (mesh_facets m)) \<and>
           is_array 2 (V + ncols (mesh_facets m)) (mesh_p m') \<and>
           ncols (mesh_p m') = V + ncols (mesh_facets m) \<and>
           (\<forall>j < V. col (mesh_p m') j = col p j) \<and>
           (\<forall>f < ncols (mesh_facets m).
              col (mesh_p m') (V + f) =
                [0.5 * (p ! 0 ! (mesh_facets m ! 0 ! f) + p ! 0 ! (mesh_facets m ! 1 ! f)),
                 0.5 * (p ! 1 ! (mesh_facets m ! 0 ! f) + p ! 1 ! (mesh_facets m ! 1 ! f))]) \<and>
           is_array 3 (4 * Ne) (mesh_t m') \<and>
           ncols (mesh_t m') = 4 * Ne \<and>
           (\<forall>i < Ne.
              tri_refined_element V Ne m
                (MeshTri_newt (mesh_t m) (map (map (\<lambda>x. x + V)) (mesh_t2f m))) m' i \<and>
              mesh_t2f m ! 0 ! i < ncols (mesh_facets m) \<and>
              mesh_t2f m ! 1 ! i < ncols (mesh_facets m) \<and>
              mesh_t2f m ! 2 ! i < ncols (mesh_facets m) \<and>
              (distinct (col t i) \<longrightarrow>
                 mesh_t m ! 0 ! i < mesh_t m ! 1 ! i \<and> mesh_t m ! 1 ! i < mesh_t m ! 2 ! i))"
proof -
  note p = assms(1) and t = assms(2) and V = assms(3) and b = assms(4)
  note fc = MeshTri_built_facets[OF t b]
  note inv = MeshTri_built_inv[OF t b]
  let ?e = "mesh_facets m"
  let ?nf = "ncols (mesh_facets m)"
  let ?s = "map (map (\<lambda>x. x + V)) (mesh_t2f m)"
  let ?newp = "hstack p [midpoints (p ! 0) ?e, midpoints (p ! 1) ?e]"
  let ?newt = "MeshTri_newt (mesh_t m) ?s"
  have s: "is_array 3 Ne ?s" by (rule is_array_shift[OF inv(2)])
  note nt = MeshTri_newt_props[OF inv(1) s]
  have "is_array 3 (4 * Ne) (mesh_t \<lparr>mesh_p = ?newp, mesh_t = ?newt\<rparr>)" using nt(1) by simp
  from MeshTri_build_props[OF this] obtain m' where
    b': "MeshTri_build_mappings \<lparr>mesh_p = ?newp, mesh_t = ?newt\<rparr> = Inr m'" by blast
  have r: "MeshTri_single_refine m = Inr m'"
    unfolding MeshTri_single_refine_eq[OF p t V b] by (rule b')
  note inv' = MeshTri_built_inv[OF nt(1) b']
  have mp': "mesh_p m' = ?newp" by (rule MeshTri_built_facets(1)[OF nt(1) b'])
  note np = tri_newp_props[OF p fc(2)]
  have ls: "length (mesh_t2f m) = 3" using inv(2) by (simp add: is_array_def)
  have sh: "?s ! k ! i = V + mesh_t2f m ! k ! i" if "k < 3" "i < Ne" for k i
  proof -
    have "length (mesh_t2f m ! k) = Ne" using inv(2) that(1) by (simp add: is_array_nth)
    then show ?thesis using that ls by simp
  qed
  have elem: "tri_refined_element V Ne m ?newt m' i" if i: "i < Ne" for i
  proof -
    note le = MeshTri_built_corners(1,2,3)[OF t b i]
    have f0: "col ?e (mesh_t2f m ! 0 ! i) = [mesh_t m ! 0 ! i, mesh_t m ! 1 ! i]"
      using fc(4)[of 0 i] i le(1) by (simp add: tri_slots_def)
    have f1: "col ?e (mesh_t2f m ! 1 ! i) = [mesh_t m ! 1 ! i, mesh_t m ! 2 ! i]"
      using fc(4)[of 1 i] i le(2) by (simp add: tri_slots_def)
    have f2: "col ?e (mesh_t2f m ! 2 ! i) = [mesh_t m ! 0 ! i, mesh_t m ! 2 ! i]"
      using fc(4)[of 2 i] i le(3) by (simp add: tri_slots_def)
    have s0: "?s ! 0 ! i = V + mesh_t2f m ! 0 ! i" by (rule sh[OF _ i]) simp
    have s1: "?s ! 1 ! i = V + mesh_t2f m ! 1 ! i" by (rule sh[OF _ i]) simp
    have s2: "?s ! 2 ! i = V + mesh_t2f m ! 2 ! i" by (rule sh[OF _ i]) simp
    have n0: "col ?newt i = [mesh_t m ! 0 ! i, V + mesh_t2f m ! 0 ! i, V + mesh_t2f m ! 2 ! i]"
      unfolding nt(2)[OF i] s0 s2 by (rule refl)
    have n1: "col ?newt (Ne + i) = [mesh_t m ! 1 ! i, V + mesh_t2f m ! 0 ! i, V + mesh_t2f m ! 1 ! i]"
      unfolding nt(3)[OF i] s0 s1 by (rule refl)
    have n2: "col ?newt (2 * Ne + i) = [mesh_t m ! 2 ! i, V + mesh_t2f m ! 2 ! i, V + mesh_t2f m ! 1 ! i]"
      unfolding nt(4)[OF i] s2 s1 by (rule refl)
    have n3: "col ?newt (3 * Ne + i) = [V + mesh_t2f m ! 0 ! i, V + mesh_t2f m ! 1 ! i, V + mesh_t2f m ! 2 ! i]"
      unfolding nt(5)[OF i] s0 s1 s2 by (rule refl)
    have c0: "col (mesh_t m') i = sort (col ?newt i)" using i by (intro inv'(4)) simp
    have c1: "col (mesh_t m') (Ne + i) = sort (col ?newt (Ne + i))" using i by (intro inv'(4)) simp
    have c2: "col (mesh_t m') (2 * Ne + i) = sort (col ?newt (2 * Ne + i))"
      using i by (intro inv'(4)) simp
    have c3: "col (mesh_t m') (3 * Ne + i) = sort (col ?newt (3 * Ne + i))"
      using i by (intro inv'(4)) simp
    show ?thesis
      unfolding tri_refined_element_def Let_def
      using le(1,2) f0 f1 f2 n0 n1 n2 n3 c0 c1 c2 c3 by simp
  qed
  show ?thesis
  proof (rule exI[of _ m'], intro conjI allI impI)
    show "MeshTri_single_refine m = Inr m'" by (rule r)
    show "distinct (cols (mesh_facets m))" by (rule fc(3))
    show "is_array 2 (V + ?nf) (mesh_p m')" unfolding mp' by (rule np(1))
    then show "ncols (mesh_p m') = V + ?nf" using ncols_array[of 2 _ "mesh_p m'"] by simp
    show "is_array 3 (4 * Ne) (mesh_t m')" by (rule inv'(1))
    then show "ncols (mesh_t m') = 4 * Ne" using ncols_array[of 3 _ "mesh_t m'"] by simp
  next
    fix j assume "j < V"
    then show "col (mesh_p m') j = col p j" unfolding mp' by (rule np(2))
  next
    fix f assume "f < ?nf"
    then show "col (mesh_p m') (V + f) =
                [0.5 * (p ! 0 ! (mesh_facets m ! 0 ! f) + p ! 0 ! (mesh_facets m ! 1 ! f)),
                 0.5 * (p ! 1 ! (mesh_facets m ! 0 ! f) + p ! 1 ! (mesh_facets m ! 1 ! f))]"
      unfolding mp' by (rule np(3))
  next
    fix i assume i: "i < Ne"
    show "tri_refined_element V Ne m ?newt m' i" by (rule elem[OF i])
    show "mesh_t2f m ! 0 ! i < ?nf" using fc(4)[of 0 i] i by simp
    show "mesh_t2f m ! 1 ! i < ?nf" using fc(4)[of 1 i] i by simp
    show "mesh_t2f m ! 2 ! i < ?nf" using fc(4)[of 2 i] i by simp
  next
    fix i assume i: "i < Ne" and d: "distinct (col t i)"
    show "mesh_t m ! 0 ! i < mesh_t m ! 1 ! i" "mesh_t m ! 1 ! i < mesh_t m ! 2 ! i"
      using MeshTri_built_corners(5)[OF t b i d] by simp_all
  qed
qed

theorem tri_single_refine_vertices_and_children_witness:
  "is_array 2 4 [[0, 1, 0, 1], [0, 0, 1, 1::real]] \<and>
   is_array 3 2 [[0, 1], [1, 3], [2, 2::nat]] \<and>
   indices_below 4 [[0, 1], [1, 3], [2, 2]] \<and>
   (\<exists>m. MeshTri_build_mappings \<lparr>mesh_p = [[0, 1, 0, 1], [0, 0, 1, 1]],
                                  mesh_t = [[0, 1], [1, 3], [2, 2]]\<rparr> = Inr m \<and>
        ncols (mesh_facets m) = 5 \<and>
        (\<exists>m'. MeshTri_single_refine m = Inr m' \<and>
              ncols (mesh_p m') = 9 \<and> ncols (mesh_t m') = 8 \<and>
              tri_refined_element 4 2 m
                (MeshTri_newt (mesh_t m) (map (map (\<lambda>x. x + 4)) (mesh_t2f m))) m' 1))"
proof -
  let ?P = "[[0, 1, 0, 1], [0, 0, 1, 1::real]]"
  let ?T = "[[0, 1], [1, 3], [2, 2::nat]]"
  let ?M = "\<lparr>mesh_p = [[0, 1, 0, 1], [0, 0, 1, 1]],
        mesh_t = [[0, 1], [1, 2], [2, 3]],
        mesh_facets = [[0, 0, 1, 1, 2], [1, 2, 2, 3, 3]],
        mesh_t2f = [[0, 2], [2, 4], [1, 3]],
        mesh_f2t = [[0, 0, 1, 1, 1], [- 1, - 1, 0, - 1, - 1]]\<rparr>"
  have h1: "is_array 2 4 ?P" by code_simp
  have h2: "is_array 3 2 ?T" by code_simp
  have h3: "indices_below 4 ?T" by code_simp
  have nf: "ncols (mesh_facets ?M) = 5" by code_simp
  from tri_single_refine_vertices_and_children[OF h1 h2 h3 default_tri_built]
  obtain m' where r: "MeshTri_single_refine ?M = Inr m'"
    and np: "ncols (mesh_p m') = 4 + ncols (mesh_facets ?M)"
    and nt: "ncols (mesh_t m') = 4 * 2"
    and el: "\<forall>i < 2. tri_refined_element 4 2 ?M
                (MeshTri_newt (mesh_t ?M) (map (map (\<lambda>x. x + 4)) (mesh_t2f ?M))) m' i"
    by blast
  have np': "ncols (mesh_p m') = 9" unfolding np nf by simp
  have nt': "ncols (mesh_t m') = 8" unfolding nt by simp
  have el1: "tri_refined_element 4 2 ?M
                (MeshTri_newt (mesh_t ?M) (map (map (\<lambda>x. x + 4)) (mesh_t2f ?M))) m' 1"
    using el by (elim allE[of _ 1]) simp
  show ?thesis
    apply (intro conjI)
       apply (rule h1)
      apply (rule h2)
     apply (rule h3)
    apply (rule exI[of _ ?M])
    apply (intro conjI)
      apply (rule default_tri_built)
     apply (rule nf)
    apply (rule exI[of _ m'])
    apply (intro conjI)
       apply (rule r)
      apply (rule np')
     apply (rule nt')
    apply (rule el1)
    done
qed

section \<open>Refinement of a tetrahedral mesh\<close>

text \<open>
  Claim C1 says that among diagonals of equal length the first one in the order {II,IV},
  {I,VI}, {III,V} is chosen. In the unit tetrahedron with the vertices (0,0,0), (1,0,0),
  (0,1,0), (0,0,1) the midpoints I..VI of the edges are the vertices 4, 7, 5, 6, 8, 9 of the
  refined mesh and the three diagonals have the same squared planar length 1/2. The rule of
  the claim selects {II,IV}, the diagonal from vertex 7 to vertex 6; the refinement splits
  along {I,VI}, the diagonal from vertex 4 to vertex 9: the four central children are
  (4,9,7,8), (4,9,8,6), (4,9,6,5), (4,9,5,7) and the first of them does not contain
  vertex 6.
\<close>

theorem unit_tet_tie_goes_to_I_VI:
  "(case unit_tet of
      Inl e \<Rightarrow> False
    | Inr m \<Rightarrow>
        (case MeshTet_single_refine m of
           Inl e \<Rightarrow> False
         | Inr m' \<Rightarrow>
             tet_mids 4 (mesh_t2e m) 0 = [4, 7, 5, 6, 8, 9] \<and>
             diag_length2 (mesh_p m') [4, 7, 5, 6, 8, 9] Diag_II_IV = 1 / 2 \<and>
             diag_length2 (mesh_p m') [4, 7, 5, 6, 8, 9] Diag_I_VI = 1 / 2 \<and>
             diag_length2 (mesh_p m') [4, 7, 5, 6, 8, 9] Diag_III_V = 1 / 2 \<and>
             tet_element_choice_claimed (mesh_p m') [4, 7, 5, 6, 8, 9] = Diag_II_IV \<and>
             diag_ends Diag_II_IV [4, 7, 5, 6, 8, 9] = (7, 6) \<and>
             drop 4 (cols (mesh_t m')) = [[4, 9, 7, 8], [4, 9, 8, 6], [4, 9, 6, 5], [4, 9, 5, 7]] \<and>
             6 \<notin> set [4, 9, 7, 8::nat]))"
  by code_simp

text \<open>
  Claim C1, as the code has it. A single refinement step of a tetrahedral mesh (\<open>p\<close> a
  3 x V array, \<open>t\<close> a 4 x Ne array with entries below V, tables built by
  \<open>_build_mappings\<close>) returns, and the columns of the new connectivity after the 4 Ne corner
  children are, as a multiset, the central children of the elements. For every element,
  with \<open>mids\<close> its six edge midpoints I..VI: the chosen diagonal is one whose squared length
  over the first two coordinates is least among the three; {I,VI} is chosen whenever it is
  not longer than the two others, {II,IV} whenever it is shorter than {I,VI} and not longer
  than {III,V}, and {III,V} only when it is shorter than both others; the element has four
  central children, all of them columns of the new connectivity, and each one begins with
  the two endpoints of the chosen diagonal.
\<close>

theorem tet_central_children_on_shortest_diagonal:
  assumes "is_array 3 V p" and "is_array 4 Ne t" and "indices_below V t"
    and "MeshTet_build_mappings \<lparr>mesh_p = p, mesh_t = t\<rparr> = Inr m"
  shows "\<exists>m'. MeshTet_single_refine m = Inr m' \<and>
     mset (drop (4 * Ne) (cols (mesh_t m')))
       = mset (concat (map (\<lambda>i. tet_central (tet_element_choice (mesh_p m') (tet_mids V (mesh_t2e m) i))
                                             (tet_mids V (mesh_t2e m) i)) [0..<Ne])) \<and>
     (\<forall>i < Ne. \<forall>mids d. mids = tet_mids V (mesh_t2e m) i \<longrightarrow> d = tet_element_choice (mesh_p m') mids \<longrightarrow>
        (\<forall>d'. diag_length2 (mesh_p m') mids d \<le> diag_length2 (mesh_p m') mids d') \<and>
        (diag_length2 (mesh_p m') mids Diag_I_VI \<le> diag_length2 (mesh_p m') mids Diag_II_IV \<and>
         diag_length2 (mesh_p m') mids Diag_I_VI \<le> diag_length2 (mesh_p m') mids Diag_III_V
           \<longrightarrow> d = Diag_I_VI) \<and>
        (diag_length2 (mesh_p m') mids Diag_II_IV < diag_length2 (mesh_p m') mids Diag_I_VI \<and>
         diag_length2 (mesh_p m') mids Diag_II_IV \<le> diag_length2 (mesh_p m') mids Diag_III_V
           \<longrightarrow> d = Diag_II_IV) \<and>
        (diag_length2 (mesh_p m') mids Diag_III_V < diag_length2 (mesh_p m') mids Diag_I_VI \<and>
         diag_length2 (mesh_p m') mids Diag_III_V < diag_length2 (mesh_p m') mids Diag_II_IV
           \<longrightarrow> d = Diag_III_V) \<and>
        length (tet_central d mids) = 4 \<and>
        set (tet_central d mids) \<subseteq> set (drop (4 * Ne) (cols (mesh_t m'))) \<and>
        (\<forall>c \<in> set (tet_central d mids).
           take 2 c = [fst (diag_ends d mids), snd (diag_ends d mids)] \<and>
           fst (diag_ends d mids) \<in> set c \<and> snd (diag_ends d mids) \<in> set c))"
proof -
  note p = assms(1) and t = assms(2) and V = assms(3) and b = assms(4)
  note bt = MeshTet_built[OF t b]
  let ?s = "map (map (\<lambda>x. x + V)) (mesh_t2e m)"
  from MeshTet_refine_props[OF p t V b] obtain m' c1 c2 c3 where
    r: "MeshTet_single_refine m = Inr m'"
    and cs: "MeshTet_masks (mesh_p m') ?s = (c1, c2, c3)"
    and c: "cols (mesh_t m') = cols (MeshTet_corners t ?s) @ middle_cols Ne ?s c1 c2 c3"
    by blast
  have four: "0 < (4::nat)" by simp
  have lc: "length (cols (MeshTet_corners t ?s)) = 4 * Ne"
    using length_cols[OF MeshTet_corners_props(1)[OF t is_array_shift[OF bt(4)]] four] .
  have dr: "drop (4 * Ne) (cols (mesh_t m')) = middle_cols Ne ?s c1 c2 c3"
    unfolding c using lc by simp
  let ?f = "\<lambda>i. tet_central (tet_element_choice (mesh_p m') (tet_mids V (mesh_t2e m) i))
                            (tet_mids V (mesh_t2e m) i)"
  have ms: "mset (drop (4 * Ne) (cols (mesh_t m'))) = mset (concat (map ?f [0..<Ne]))"
    unfolding dr by (rule middle_cols_mset[OF bt(4) cs])
  have sub: "set (?f i) \<subseteq> set (drop (4 * Ne) (cols (mesh_t m')))" if "i < Ne" for i
  proof -
    have "set (?f i) \<subseteq> set (concat (map ?f [0..<Ne]))"
      using that by (intro set_concat_central) simp
    then show ?thesis using mset_eq_setD[OF ms] by simp
  qed
  show ?thesis
  proof (rule exI[of _ m'], intro conjI allI impI ballI)
    show "MeshTet_single_refine m = Inr m'" by (rule r)
    show "mset (drop (4 * Ne) (cols (mesh_t m'))) = mset (concat (map ?f [0..<Ne]))" by (rule ms)
  next
    fix i mids d d'
    assume "mids = tet_mids V (mesh_t2e m) i" "d = tet_element_choice (mesh_p m') mids"
    then show "diag_length2 (mesh_p m') mids d \<le> diag_length2 (mesh_p m') mids d'"
      using tet_element_choice_shortest by simp
  next
    fix i mids d
    assume "d = tet_element_choice (mesh_p m') mids"
      "diag_length2 (mesh_p m') mids Diag_I_VI \<le> diag_length2 (mesh_p m') mids Diag_II_IV \<and>
         diag_length2 (mesh_p m') mids Diag_I_VI \<le> diag_length2 (mesh_p m') mids Diag_III_V"
    then show "d = Diag_I_VI" using tet_element_choice_ties(1) by simp
  next
    fix i mids d
    assume "d = tet_element_choice (mesh_p m') mids"
      "diag_length2 (mesh_p m') mids Diag_II_IV < diag_length2 (mesh_p m') mids Diag_I_VI \<and>
         diag_length2 (mesh_p m') mids Diag_II_IV \<le> diag_length2 (mesh_p m') mids Diag_III_V"
    then show "d = Diag_II_IV" using tet_element_choice_ties(2) by simp
  next
    fix i mids d
    assume "d = tet_element_choice (mesh_p m') mids"
      "diag_length2 (mesh_p m') mids Diag_III_V < diag_length2 (mesh_p m') mids Diag_I_VI \<and>
         diag_length2 (mesh_p m') mids Diag_III_V < diag_length2 (mesh_p m') mids Diag_II_IV"
    then show "d = Diag_III_V" using tet_element_choice_ties(3) by simp
  next
    fix i mids d
    show "length (tet_central d mids) = 4" by (rule length_tet_central)
  next
    fix i mids d
    assume "i < Ne" "mids = tet_mids V (mesh_t2e m) i" "d = tet_element_choice (mesh_p m') mids"
    then show "set (tet_central d mids) \<subseteq> set (drop (4 * Ne) (cols (mesh_t m')))"
      using sub[of i] by simp
  next
    fix i mids d c
    assume cm: "c \<in> set (tet_central d mids)"
    show e: "take 2 c = [fst (diag_ends d mids), snd (diag_ends d mids)]"
      by (rule tet_central_ends[OF cm])
    have "set (take 2 c) \<subseteq> set c" by (rule set_take_subset)
    then show "fst (diag_ends d mids) \<in> set c" "snd (diag_ends d mids) \<in> set c"
      unfolding e by simp_all
  qed
qed


theorem tet_central_children_on_shortest_diagonal_witness:
  "is_array 3 4 (cols [[0, 0, 0], [1, 0, 0], [0, 1, 0], [0, 0, 1::real]]) \<and>
   is_array 4 1 unit_tet_t \<and> indices_below 4 unit_tet_t \<and>
   (\<exists>m. MeshTet_build_mappings \<lparr>mesh_p = cols [[0, 0, 0], [1, 0, 0], [0, 1, 0], [0, 0, 1]],
                                  mesh_t = unit_tet_t\<rparr> = Inr m \<and>
      (\<exists>m'. MeshTet_single_refine m = Inr m' \<and>
         mset (drop (4 * 1) (cols (mesh_t m')))
           = mset (concat (map (\<lambda>i. tet_central (tet_element_choice (mesh_p m') (tet_mids 4 (mesh_t2e m) i))
                                                 (tet_mids 4 (mesh_t2e m) i)) [0..<1]))))"
proof -
  let ?N = "\<lparr>mesh_p = [[0, 1, 0, 0], [0, 0, 1, 0], [0, 0, 0, 1]],
        mesh_t = [[0], [1], [2], [3]],
        mesh_facets = [[0, 0, 0, 1], [1, 1, 2, 2], [2, 3, 3, 3]],
        mesh_t2f = [[0], [1], [2], [3]],
        mesh_f2t = [[0, 0, 0, 0], [- 1, - 1, - 1, - 1]],
        mesh_edges = [[0, 0, 0, 1, 1, 2], [1, 2, 3, 2, 3, 3]],
        mesh_t2e = [[0], [3], [1], [2], [4], [5]]\<rparr>"
  from tet_central_children_on_shortest_diagonal[OF unit_tet_arrays unit_tet_built]
  obtain m' where r: "MeshTet_single_refine ?N = Inr m'"
    and ms: "mset (drop (4 * 1) (cols (mesh_t m')))
           = mset (concat (map (\<lambda>i. tet_central (tet_element_choice (mesh_p m') (tet_mids 4 (mesh_t2e ?N) i))
                                                 (tet_mids 4 (mesh_t2e ?N) i)) [0..<1]))"
    by (elim exE conjE)
  show ?thesis
    apply (intro conjI)
       apply (rule unit_tet_arrays(1))
      apply (rule unit_tet_arrays(2))
     apply (rule unit_tet_arrays(3))
    apply (rule exI[of _ ?N])
    apply (intro conjI)
      apply (rule unit_tet_built)
    apply (rule exI[of _ m'])
    apply (intro conjI)
      apply (rule r)
     apply (rule ms)
    done
qed

text \<open>
  Claim C3. A single refinement step of a tetrahedral mesh with V vertices, E unique edges
  (the columns of the edge table, which are pairwise different) and Ne elements (\<open>p\<close> a
  3 x V array, \<open>t\<close> a 4 x Ne array with entries below V, tables built by \<open>_build_mappings\<close>)
  returns a mesh with exactly V + E vertices, the old ones followed by the midpoints of the
  edges, and exactly 8 Ne elements. The first 4 Ne columns of the new connectivity are the
  corner children: the element \<open>i\<close> has its four corner children at the columns \<open>i\<close>,
  \<open>Ne + i\<close>, \<open>2 Ne + i\<close>, \<open>3 Ne + i\<close>. The remaining 4 Ne columns are, as a multiset, four
  central children for each element. The three masks of the diagonal cases have one entry
  for each element, and for each element exactly one of the three is set.
\<close>

theorem tet_single_refine_counts:
  assumes "is_array 3 V p" and "is_array 4 Ne t" and "indices_below V t"
    and "MeshTet_build_mappings \<lparr>mesh_p = p, mesh_t = t\<rparr> = Inr m"
  shows "\<exists>m'. MeshTet_single_refine m = Inr m' \<and>
     distinct (cols (mesh_edges m)) \<and>
     is_array 3 (V + ncols (mesh_edges m)) (mesh_p m') \<and>
     ncols (mesh_p m') = V + ncols (mesh_edges m) \<and>
     (\<forall>j < V. col (mesh_p m') j = col p j) \<and>
     (\<forall>g < ncols (mesh_edges m).
        col (mesh_p m') (V + g) =
          [0.5 * (p ! 0 ! (mesh_edges m ! 0 ! g) + p ! 0 ! (mesh_edges m ! 1 ! g)),
           0.5 * (p ! 1 ! (mesh_edges m ! 0 ! g) + p ! 1 ! (mesh_edges m ! 1 ! g)),
           0.5 * (p ! 2 ! (mesh_edges m ! 0 ! g) + p ! 2 ! (mesh_edges m ! 1 ! g))]) \<and>
     is_array 4 (8 * Ne) (mesh_t m') \<and>
     ncols (mesh_t m') = 8 * Ne \<and>
     (\<forall>i < Ne.
        [col (mesh_t m') i, col (mesh_t m') (Ne + i), col (mesh_t m') (2 * Ne + i),
         col (mesh_t m') (3 * Ne + i)]
          = tet_corner_children (col t i) (tet_mids V (mesh_t2e m) i)) \<and>
     length (drop (4 * Ne) (cols (mesh_t m'))) = 4 * Ne \<and>
     mset (drop (4 * Ne) (cols (mesh_t m')))
       = mset (concat (map (\<lambda>i. tet_central (tet_element_choice (mesh_p m') (tet_mids V (mesh_t2e m) i))
                                             (tet_mids V (mesh_t2e m) i)) [0..<Ne])) \<and>
     (\<exists>c1 c2 c3.
        MeshTet_masks (mesh_p m') (map (map (\<lambda>x. x + V)) (mesh_t2e m)) = (c1, c2, c3) \<and>
        length c1 = Ne \<and> length c2 = Ne \<and> length c3 = Ne \<and>
        (\<forall>i < Ne. (c1 ! i \<and> \<not> c2 ! i \<and> \<not> c3 ! i) \<or> (\<not> c1 ! i \<and> c2 ! i \<and> \<not> c3 ! i) \<or>
                   (\<not> c1 ! i \<and> \<not> c2 ! i \<and> c3 ! i)))"
proof -
  note p = assms(1) and t = assms(2) and V = assms(3) and b = assms(4)
  note bt = MeshTet_built[OF t b]
  let ?s = "map (map (\<lambda>x. x + V)) (mesh_t2e m)"
  let ?nE = "ncols (mesh_edges m)"
  from MeshTet_refine_props[OF p t V b] obtain m' c1 c2 c3 where
    r: "MeshTet_single_refine m = Inr m'"
    and mp: "mesh_p m' = MeshTet_newp p (mesh_edges m)"
    and cs: "MeshTet_masks (mesh_p m') ?s = (c1, c2, c3)"
    and a: "is_array 4 (8 * Ne) (mesh_t m')"
    and c: "cols (mesh_t m') = cols (MeshTet_corners t ?s) @ middle_cols Ne ?s c1 c2 c3"
    by blast
  have four: "0 < (4::nat)" by simp
  have s: "is_array 6 Ne ?s" by (rule is_array_shift[OF bt(4)])
  note co = MeshTet_corners_props[OF t s]
  have lc: "length (cols (MeshTet_corners t ?s)) = 4 * Ne" using length_cols[OF co(1) four] .
  have dr: "drop (4 * Ne) (cols (mesh_t m')) = middle_cols Ne ?s c1 c2 c3"
    unfolding c using lc by simp
  let ?f = "\<lambda>i. tet_central (tet_element_choice (mesh_p m') (tet_mids V (mesh_t2e m) i))
                            (tet_mids V (mesh_t2e m) i)"
  have ms: "mset (drop (4 * Ne) (cols (mesh_t m'))) = mset (concat (map ?f [0..<Ne]))"
    unfolding dr by (rule middle_cols_mset[OF bt(4) cs])
  have ld: "length (drop (4 * Ne) (cols (mesh_t m'))) = 4 * Ne"
    using arg_cong[OF ms, of size] by (simp add: length_concat_central)
  note np = tet_newp_props[OF p bt(3)]
  note mk = MeshTet_masks_props(1,2,3)[OF s cs]
  have cc: "col (mesh_t m') j = col (MeshTet_corners t ?s) j" if j: "j < 4 * Ne" for j
  proof -
    have "j < 8 * Ne" using j by simp
    then have "col (mesh_t m') j = cols (mesh_t m') ! j" using nth_cols[OF a four] by simp
    also have "\<dots> = cols (MeshTet_corners t ?s) ! j" unfolding c using j lc by (simp add: nth_append)
    also have "\<dots> = col (MeshTet_corners t ?s) j" using nth_cols[OF co(1) four j] .
    finally show ?thesis .
  qed
  have l4: "length t = 4" using t by (simp add: is_array_def)
  have l6: "length (mesh_t2e m) = 6" using bt(4) by (simp add: is_array_def)
  have corner: "[col (mesh_t m') i, col (mesh_t m') (Ne + i), col (mesh_t m') (2 * Ne + i),
         col (mesh_t m') (3 * Ne + i)]
          = tet_corner_children (col t i) (tet_mids V (mesh_t2e m) i)" if i: "i < Ne" for i
  proof -
    have sh: "?s ! k ! i = tet_mids V (mesh_t2e m) i ! k" if "k < 6" for k
    proof -
      have "length (mesh_t2e m ! k) = Ne" using bt(4) that by (simp add: is_array_nth)
      then show ?thesis using that l6 i by (simp add: tet_mids_nth)
    qed
    have e: "?s ! 0 ! i = tet_mids V (mesh_t2e m) i ! 0" "?s ! 1 ! i = tet_mids V (mesh_t2e m) i ! 1"
      "?s ! 2 ! i = tet_mids V (mesh_t2e m) i ! 2" "?s ! 3 ! i = tet_mids V (mesh_t2e m) i ! 3"
      "?s ! 4 ! i = tet_mids V (mesh_t2e m) i ! 4" "?s ! 5 ! i = tet_mids V (mesh_t2e m) i ! 5"
      by (rule sh, simp)+
    have v: "t ! 0 ! i = col t i ! 0" "t ! 1 ! i = col t i ! 1" "t ! 2 ! i = col t i ! 2"
      "t ! 3 ! i = col t i ! 3"
      using l4 by (simp_all add: nth_col)
    have j: "i < 4 * Ne" "Ne + i < 4 * Ne" "2 * Ne + i < 4 * Ne" "3 * Ne + i < 4 * Ne"
      using i by simp_all
    show ?thesis
      unfolding cc[OF j(1)] cc[OF j(2)] cc[OF j(3)] cc[OF j(4)]
        co(2)[OF i] co(3)[OF i] co(4)[OF i] co(5)[OF i] e v tet_corner_children_def
      by (rule refl)
  qed
  show ?thesis
  proof (rule exI[of _ m'], intro conjI allI impI)
    show "MeshTet_single_refine m = Inr m'" by (rule r)
    show "distinct (cols (mesh_edges m))" by (rule bt(5))
    show "is_array 3 (V + ?nE) (mesh_p m')" unfolding mp by (rule np(1))
    then show "ncols (mesh_p m') = V + ?nE" using ncols_array[of 3 _ "mesh_p m'"] by simp
    show "is_array 4 (8 * Ne) (mesh_t m')" by (rule a)
    then show "ncols (mesh_t m') = 8 * Ne" using ncols_array[of 4 _ "mesh_t m'"] by simp
    show "length (drop (4 * Ne) (cols (mesh_t m'))) = 4 * Ne" by (rule ld)
    show "mset (drop (4 * Ne) (cols (mesh_t m'))) = mset (concat (map ?f [0..<Ne]))" by (rule ms)
    show "\<exists>c1 c2 c3.
        MeshTet_masks (mesh_p m') ?s = (c1, c2, c3) \<and>
        length c1 = Ne \<and> length c2 = Ne \<and> length c3 = Ne \<and>
        (\<forall>i < Ne. (c1 ! i \<and> \<not> c2 ! i \<and> \<not> c3 ! i) \<or> (\<not> c1 ! i \<and> c2 ! i \<and> \<not> c3 ! i) \<or>
                   (\<not> c1 ! i \<and> \<not> c2 ! i \<and> c3 ! i))"
    proof (rule exI[of _ c1], rule exI[of _ c2], rule exI[of _ c3], intro conjI allI impI)
      show "MeshTet_masks (mesh_p m') ?s = (c1, c2, c3)" by (rule cs)
      show "length c1 = Ne" by (rule mk(1))
      show "length c2 = Ne" by (rule mk(2))
      show "length c3 = Ne" by (rule mk(3))
    next
      fix i assume i: "i < Ne"
      show "(c1 ! i \<and> \<not> c2 ! i \<and> \<not> c3 ! i) \<or> (\<not> c1 ! i \<and> c2 ! i \<and> \<not> c3 ! i) \<or>
                   (\<not> c1 ! i \<and> \<not> c2 ! i \<and> c3 ! i)"
        by (rule tet_element_masks(5)[OF bt(4) i cs])
    qed
  next
    fix j assume "j < V"
    then show "col (mesh_p m') j = col p j" unfolding mp by (rule np(2))
  next
    fix g assume "g < ?nE"
    then show "col (mesh_p m') (V + g) =
          [0.5 * (p ! 0 ! (mesh_edges m ! 0 ! g) + p ! 0 ! (mesh_edges m ! 1 ! g)),
           0.5 * (p ! 1 ! (mesh_edges m ! 0 ! g) + p ! 1 ! (mesh_edges m ! 1 ! g)),
           0.5 * (p ! 2 ! (mesh_edges m ! 0 ! g) + p ! 2 ! (mesh_edges m ! 1 ! g))]"
      unfolding mp by (rule np(3))
  next
    fix i assume "i < Ne"
    then show "[col (mesh_t m') i, col (mesh_t m') (Ne + i), col (mesh_t m') (2 * Ne + i),
         col (mesh_t m') (3 * Ne + i)]
          = tet_corner_children (col t i) (tet_mids V (mesh_t2e m) i)" by (rule corner)
  qed
qed

theorem tet_single_refine_counts_witness:
  "is_array 3 4 (cols [[0, 0, 0], [1, 0, 0], [0, 1, 0], [0, 0, 1::real]]) \<and>
   is_array 4 1 unit_tet_t \<and> indices_below 4 unit_tet_t \<and>
   (\<exists>m. MeshTet_build_mappings \<lparr>mesh_p = cols [[0, 0, 0], [1, 0, 0], [0, 1, 0], [0, 0, 1]],
                                  mesh_t = unit_tet_t\<rparr> = Inr m \<and>
      ncols (mesh_edges m) = 6 \<and>
      (\<exists>m'. MeshTet_single_refine m = Inr m' \<and>
         ncols (mesh_p m') = 10 \<and> ncols (mesh_t m') = 8))"
proof -
  let ?N = "\<lparr>mesh_p = [[0, 1, 0, 0], [0, 0, 1, 0], [0, 0, 0, 1]],
        mesh_t = [[0], [1], [2], [3]],
        mesh_facets = [[0, 0, 0, 1], [1, 1, 2, 2], [2, 3, 3, 3]],
        mesh_t2f = [[0], [1], [2], [3]],
        mesh_f2t = [[0, 0, 0, 0], [- 1, - 1, - 1, - 1]],
        mesh_edges = [[0, 0, 0, 1, 1, 2], [1, 2, 3, 2, 3, 3]],
        mesh_t2e = [[0], [3], [1], [2], [4], [5]]\<rparr>"
  have nE: "ncols (mesh_edges ?N) = 6" by code_simp
  from tet_single_refine_counts[OF unit_tet_arrays unit_tet_built]
  obtain m' where r: "MeshTet_single_refine ?N = Inr m'"
    and np: "ncols (mesh_p m') = 4 + ncols (mesh_edges ?N)"
    and nt: "ncols (mesh_t m') = 8 * 1"
    by (elim exE conjE)
  have np': "ncols (mesh_p m') = 10" unfolding np nE by simp
  have nt': "ncols (mesh_t m') = 8" unfolding nt by simp
  show ?thesis
    apply (intro conjI)
       apply (rule unit_tet_arrays(1))
      apply (rule unit_tet_arrays(2))
     apply (rule unit_tet_arrays(3))
    apply (rule exI[of _ ?N])
    apply (intro conjI)
      apply (rule unit_tet_built)
     apply (rule nE)
    apply (rule exI[of _ m'])
    apply (intro conjI)
      apply (rule r)
     apply (rule np')
    apply (rule nt')
    done
qed

end
